theory Spec2Isabelle
  imports Main "HOL-Library.Char_ord" "HOL-Library.List_Lexorder" "HOL-Library.Product_Lexorder"
begin

section \<open>The JavaScript host: numbers, strings and dates\<close>

text \<open>
  The storage layer (\<^verbatim>\<open>lib/kv.ts\<close>, day-keyed variant) reads the system clock, assembles
  keys from strings and compares dates. This section models the parts of the host it relies
  on. Instants are milliseconds since the epoch, as \<^verbatim>\<open>Date.now()\<close> returns them. Calendar
  fields follow the proleptic Gregorian calendar of ECMAScript, computed from the day number
  by the usual era-based arithmetic.
\<close>

definition msPerDay :: int where
  "msPerDay = 1000 * 60 * 60 * 24"

text \<open>Day number (days since 1970-01-01) to (year, month 1..12, day 1..31), and back.\<close>

definition civil_from_days :: "int \<Rightarrow> int \<times> int \<times> int" where
  "civil_from_days z =
     (let z1 = z + 719468;
          era = z1 div 146097;
          doe = z1 - era * 146097;
          yoe = (doe - doe div 1460 + doe div 36524 - doe div 146096) div 365;
          y = yoe + era * 400;
          doy = doe - (365 * yoe + yoe div 4 - yoe div 100);
          mp = (5 * doy + 2) div 153;
          d = doy - (153 * mp + 2) div 5 + 1;
          m = (if mp < 10 then mp + 3 else mp - 9)
      in (if m \<le> 2 then y + 1 else y, m, d))"

definition days_from_civil :: "int \<Rightarrow> int \<Rightarrow> int \<Rightarrow> int" where
  "days_from_civil y m d =
     (let y1 = (if m \<le> 2 then y - 1 else y);
          era = y1 div 400;
          yoe = y1 - era * 400;
          doy = (153 * (if m > 2 then m - 3 else m + 9) + 2) div 5 + d - 1;
          doe = yoe * 365 + yoe div 4 - yoe div 100 + doy
      in era * 146097 + doe - 719468)"

text \<open>
  A (year, month, day) triple denotes a real calendar date when the calendar maps its day
  number back to the same triple.
\<close>

definition real_calendar_date :: "int \<Rightarrow> int \<Rightarrow> int \<Rightarrow> bool" where
  "real_calendar_date y m d = (civil_from_days (days_from_civil y m d) = (y, m, d))"

text \<open>
  What one invocation of a storage-layer function sees of its host: the clock reading
  (\<^verbatim>\<open>new Date()\<close>, \<^verbatim>\<open>Date.now()\<close>; one reading per invocation), the offset of local
  time from UTC in force at that instant, the offset in force at the local midnight that
  began the current local day (the two differ on a day the zone changes its offset), and
  the host's parser behind \<^verbatim>\<open>new Date(string)\<close>, whose result is the instant or
  \<open>None\<close> for an invalid date (time value NaN).
\<close>

record runtime =
  nowMs :: int
  tzOffsetMs :: int
  tzOffsetAtMidnight :: int
  parseDate :: "string \<Rightarrow> int option"

definition localDay :: "runtime \<Rightarrow> int" where
  "localDay rt = (nowMs rt + tzOffsetMs rt) div msPerDay"

definition getFullYear :: "runtime \<Rightarrow> int" where
  "getFullYear rt = (case civil_from_days (localDay rt) of (y, m, d) \<Rightarrow> y)"

text \<open>\<^verbatim>\<open>getMonth()\<close> is zero-based: January is 0, December is 11.\<close>

definition getMonth :: "runtime \<Rightarrow> int" where
  "getMonth rt = (case civil_from_days (localDay rt) of (y, m, d) \<Rightarrow> m - 1)"

definition getDate :: "runtime \<Rightarrow> int" where
  "getDate rt = (case civil_from_days (localDay rt) of (y, m, d) \<Rightarrow> d)"

text \<open>
  \<^verbatim>\<open>today.setHours(0, 0, 0, 0)\<close>: the instant of local midnight of the current local
  day, which is that local time less the offset in force then.
\<close>

definition setHours0 :: "runtime \<Rightarrow> int" where
  "setHours0 rt = localDay rt * msPerDay - tzOffsetAtMidnight rt"

subsection \<open>Numbers and strings\<close>

text \<open>
  \<^verbatim>\<open>Number.prototype.toString()\<close> on integers (\<open>showDecimal\<close> gives the decimal
  digits of a non-negative integer), \<^verbatim>\<open>padStart\<close> and \<^verbatim>\<open>split\<close>.
\<close>

definition digitChar :: "int \<Rightarrow> char" where
  "digitChar d = ''0123456789'' ! nat d"

function showDecimal :: "int \<Rightarrow> string" where
  "showDecimal n =
     (if n < 10 then [digitChar n]
      else showDecimal (n div 10) @ [digitChar (n mod 10)])"
  by pat_completeness auto
termination
  by (relation "measure nat") auto

declare showDecimal.simps [simp del]

definition js_toString :: "int \<Rightarrow> string" where
  "js_toString i = (if i < 0 then CHR ''-'' # showDecimal (- i) else showDecimal i)"

definition padStart :: "nat \<Rightarrow> char \<Rightarrow> string \<Rightarrow> string" where
  "padStart n c s = replicate (n - length s) c @ s"

fun split_on :: "char \<Rightarrow> string \<Rightarrow> string list" where
  "split_on c [] = [[]]"
| "split_on c (x # xs) =
     (if x = c then [] # split_on c xs
      else (case split_on c xs of
              p # ps \<Rightarrow> (x # p) # ps
            | [] \<Rightarrow> [[x]]))"

text \<open>
  \<^verbatim>\<open>Number(s)\<close> on the strings the date fields consist of: a string of decimal digits is
  its value (the empty string is 0; exact below \<open>2 ^ 53\<close>), anything else is NaN. Other
  numeric literals that \<^verbatim>\<open>Number\<close> accepts (signs, white space, exponents,
  hexadecimal) do not occur in the \<^verbatim>\<open>DD.MM\<close> format and are mapped to NaN here.
\<close>

datatype jsnum = NaN | Num int

definition is_digit :: "char \<Rightarrow> bool" where
  "is_digit c = (c \<in> set ''0123456789'')"

definition digit_val :: "char \<Rightarrow> int" where
  "digit_val c = of_char c - 48"

definition js_Number :: "string \<Rightarrow> jsnum" where
  "js_Number s =
     (if list_all is_digit s then Num (foldl (\<lambda>a c. 10 * a + digit_val c) 0 s) else NaN)"

definition jsnum_toString :: "jsnum \<Rightarrow> string" where
  "jsnum_toString x = (case x of NaN \<Rightarrow> ''NaN'' | Num i \<Rightarrow> js_toString i)"

text \<open>
  \<^verbatim>\<open>toISOString()\<close>: the UTC calendar date and time of an instant, as
  \<^verbatim>\<open>YYYY-MM-DDTHH:mm:ss.sssZ\<close> (years outside 0..9999 take a sign and six digits).
\<close>

definition isoYear :: "int \<Rightarrow> string" where
  "isoYear y =
     (if 0 \<le> y \<and> y \<le> 9999 then padStart 4 CHR ''0'' (showDecimal y)
      else (if y < 0 then ''-'' else ''+'') @ padStart 6 CHR ''0'' (showDecimal \<bar>y\<bar>))"

definition pad2 :: "int \<Rightarrow> string" where
  "pad2 i = padStart 2 CHR ''0'' (js_toString i)"

definition pad3 :: "int \<Rightarrow> string" where
  "pad3 i = padStart 3 CHR ''0'' (js_toString i)"

definition toISOString :: "int \<Rightarrow> string" where
  "toISOString t =
     (case civil_from_days (t div msPerDay) of (y, m, d) \<Rightarrow>
        (let r = t mod msPerDay
         in isoYear y @ ''-'' @ pad2 m @ ''-'' @ pad2 d @ ''T''
            @ pad2 (r div 3600000) @ '':'' @ pad2 (r div 60000 mod 60) @ '':''
            @ pad2 (r div 1000 mod 60) @ ''.'' @ pad3 (r mod 1000) @ ''Z''))"

text \<open>
  The ECMAScript date-only form \<^verbatim>\<open>YYYY-MM-DD\<close>, read as UTC midnight: the parser used
  for concrete evaluations. Strings of another shape are invalid dates here.
\<close>

definition isoDateOnly :: "string \<Rightarrow> int option" where
  "isoDateOnly s =
     (case s of
        [y1, y2, y3, y4, h1, m1, m2, h2, d1, d2] \<Rightarrow>
          (if list_all is_digit [y1, y2, y3, y4, m1, m2, d1, d2] \<and> h1 = CHR ''-'' \<and> h2 = CHR ''-''
           then (let y = 1000 * digit_val y1 + 100 * digit_val y2 + 10 * digit_val y3 + digit_val y4;
                     m = 10 * digit_val m1 + digit_val m2;
                     d = 10 * digit_val d1 + digit_val d2
                 in if 1 \<le> m \<and> m \<le> 12 \<and> 1 \<le> d \<and> d \<le> 31
                    then Some (days_from_civil y m d * msPerDay) else None)
           else None)
      | _ \<Rightarrow> None)"

section \<open>Date Normalizer: \<^verbatim>\<open>convertToISODate\<close>\<close>

text \<open>
  Errors are values. \<open>TypeError\<close> is what \<^verbatim>\<open>month.toString()\<close> throws when the date
  string has no second part (\<^verbatim>\<open>month\<close> is \<^verbatim>\<open>undefined\<close>); \<open>StorageError\<close> is a failed
  Redis command.
\<close>

datatype js_error = TypeError | StorageError

text \<open>
  \<^verbatim>\<open>const [day, month] = date.split(".").map(Number)\<close>, then the two year-boundary tests
  in sequence, then the template string. The branch without a second part is the
  \<^verbatim>\<open>TypeError\<close>.
\<close>

definition convertToISODate :: "runtime \<Rightarrow> string \<Rightarrow> js_error + string" where
  "convertToISODate rt date =
     (case map js_Number (split_on CHR ''.'' date) of
        day # month # rest \<Rightarrow>
          (let year0 = getFullYear rt;
               year1 = (if getMonth rt = 0 \<and> month = Num 12 then year0 - 1 else year0);
               year2 = (if getMonth rt = 11 \<and> month = Num 1 then year1 + 1 else year1)
           in Inr (js_toString year2 @ ''-'' @ padStart 2 CHR ''0'' (jsnum_toString month)
                   @ ''-'' @ padStart 2 CHR ''0'' (jsnum_toString day)))
      | _ \<Rightarrow> Inl TypeError)"

section \<open>Data model (\<^verbatim>\<open>lib/types.ts\<close>)\<close>

record TrainingSession =
  type :: string
  exercises :: "string list"
  trainingMethod :: string
  mainPartDuration :: string

text \<open>
  The optional fields of a day are absent in what the parser returns and are filled in when
  the day is stored. (The day's \<^verbatim>\<open>sourceUrl\<close> and \<^verbatim>\<open>scrapedAt\<close> carry the prefix
  \<open>day\<close> here, since the week has fields of the same names.)
\<close>

record DaySchedule =
  date :: string
  dayName :: string
  isoDate :: "string option"
  daySourceUrl :: "string option"
  dayScrapedAt :: "string option"
  trainingSessions :: "TrainingSession list"

record WeekSchedule =
  week :: string
  sourceUrl :: string
  scrapedAt :: string
  days :: "DaySchedule list"

record ScrapingResult =
  success :: bool
  schedulesProcessed :: nat
  errors :: "string list"
  urls :: "string list"
  timestamp :: string

section \<open>Schedule Store: the Redis key space\<close>

text \<open>
  One component per key family of \<^verbatim>\<open>lib/kv.ts\<close>:
  \<^item> \<open>dayRecs\<close>: \<^verbatim>\<open>schedules:day:{YYYY-MM-DD}\<close>, indexed by the date part of the key;
  \<^item> \<open>daysList\<close>: the sorted set \<^verbatim>\<open>schedules:days:list\<close>, members with their scores;
  \<^item> \<open>weekRecs\<close>: \<^verbatim>\<open>schedules:week:{week}\<close>, indexed by the week identifier;
  \<^item> \<open>latest_update\<close>: \<^verbatim>\<open>schedules:latest_update\<close>;
  \<^item> \<open>scrapingLogs\<close>: \<^verbatim>\<open>logs:scraping:{date}\<close> (the 30-day expiry is not modelled).

  The key families have distinct fixed prefixes, so they do not overlap. \<open>failing\<close> is the
  set of Redis commands that currently throw (storage unavailable); it is empty for a
  healthy store, and no operation of the storage layer changes it.
\<close>

record WeekMeta =
  metaWeek :: string
  metaSourceUrl :: string
  metaScrapedAt :: string
  dayCount :: nat

datatype redis_cmd = SET | GET | ZADD | ZRANGE | EXISTS

record store =
  dayRecs :: "string \<rightharpoonup> DaySchedule"
  daysList :: "(string \<times> int) list"
  weekRecs :: "string \<rightharpoonup> WeekMeta"
  latest_update :: "int option"
  scrapingLogs :: "string \<rightharpoonup> (ScrapingResult \<times> (string \<times> int) option)"
  failing :: "redis_cmd set"

subsection \<open>Redis commands\<close>

definition redis_set_day :: "string \<Rightarrow> DaySchedule \<Rightarrow> store \<Rightarrow> js_error + store" where
  "redis_set_day k v st =
     (if SET \<in> failing st then Inl StorageError
      else Inr (st\<lparr>dayRecs := (dayRecs st)(k \<mapsto> v)\<rparr>))"

definition redis_set_week :: "string \<Rightarrow> WeekMeta \<Rightarrow> store \<Rightarrow> js_error + store" where
  "redis_set_week k v st =
     (if SET \<in> failing st then Inl StorageError
      else Inr (st\<lparr>weekRecs := (weekRecs st)(k \<mapsto> v)\<rparr>))"

definition redis_set_latest_update :: "int \<Rightarrow> store \<Rightarrow> js_error + store" where
  "redis_set_latest_update v st =
     (if SET \<in> failing st then Inl StorageError
      else Inr (st\<lparr>latest_update := Some v\<rparr>))"

definition redis_set_log ::
  "string \<Rightarrow> ScrapingResult \<times> (string \<times> int) option \<Rightarrow> store \<Rightarrow> js_error + store" where
  "redis_set_log k v st =
     (if SET \<in> failing st then Inl StorageError
      else Inr (st\<lparr>scrapingLogs := (scrapingLogs st)(k \<mapsto> v)\<rparr>))"

definition redis_get_day :: "string \<Rightarrow> store \<Rightarrow> js_error + DaySchedule option" where
  "redis_get_day k st = (if GET \<in> failing st then Inl StorageError else Inr (dayRecs st k))"

definition redis_get_latest_update :: "store \<Rightarrow> js_error + int option" where
  "redis_get_latest_update st =
     (if GET \<in> failing st then Inl StorageError else Inr (latest_update st))"

definition redis_exists_day :: "string \<Rightarrow> store \<Rightarrow> js_error + nat" where
  "redis_exists_day k st =
     (if EXISTS \<in> failing st then Inl StorageError
      else Inr (case dayRecs st k of None \<Rightarrow> 0 | Some v \<Rightarrow> 1))"

definition redis_exists_week :: "string \<Rightarrow> store \<Rightarrow> js_error + nat" where
  "redis_exists_week k st =
     (if EXISTS \<in> failing st then Inl StorageError
      else Inr (case weekRecs st k of None \<Rightarrow> 0 | Some v \<Rightarrow> 1))"

text \<open>
  \<^verbatim>\<open>ZADD\<close> sets the member's score, replacing the old score of a member already present.
  \<^verbatim>\<open>ZRANGE 0 -1\<close> lists the members by ascending score, members of equal score in
  lexicographic order; with \<^verbatim>\<open>rev\<close> the listing is reversed.
\<close>

definition zadd :: "int \<Rightarrow> string \<Rightarrow> (string \<times> int) list \<Rightarrow> (string \<times> int) list" where
  "zadd score member z = (member, score) # filter (\<lambda>p. fst p \<noteq> member) z"

definition zrange_all :: "(string \<times> int) list \<Rightarrow> string list" where
  "zrange_all z = map fst (sort_key (\<lambda>p. (snd p, fst p)) z)"

definition redis_zadd :: "int \<Rightarrow> string \<Rightarrow> store \<Rightarrow> js_error + store" where
  "redis_zadd score member st =
     (if ZADD \<in> failing st then Inl StorageError
      else Inr (st\<lparr>daysList := zadd score member (daysList st)\<rparr>))"

definition redis_zrange :: "bool \<Rightarrow> store \<Rightarrow> js_error + string list" where
  "redis_zrange reversed st =
     (if ZRANGE \<in> failing st then Inl StorageError
      else Inr (if reversed then rev (zrange_all (daysList st)) else zrange_all (daysList st)))"

subsection \<open>\<^verbatim>\<open>storeWeekSchedule\<close>\<close>

text \<open>
  The record written for a day: \<^verbatim>\<open>{...day, isoDate, sourceUrl, scrapedAt}\<close>.
\<close>

definition stampDay :: "WeekSchedule \<Rightarrow> string \<Rightarrow> DaySchedule \<Rightarrow> DaySchedule" where
  "stampDay schedule isoKey day =
     day\<lparr>isoDate := Some isoKey, daySourceUrl := Some (sourceUrl schedule),
         dayScrapedAt := Some (scrapedAt schedule)\<rparr>"

text \<open>
  The \<^verbatim>\<open>for (const day of schedule.days)\<close> loop. An exception (a date without a month
  part, a failed command) leaves the loop with the store as written so far.
\<close>

fun storeDays ::
  "runtime \<Rightarrow> WeekSchedule \<Rightarrow> DaySchedule list \<Rightarrow> nat \<Rightarrow> store \<Rightarrow> (js_error + nat) \<times> store" where
  "storeDays rt schedule [] storedCount st = (Inr storedCount, st)"
| "storeDays rt schedule (day # rest) storedCount st =
     (case convertToISODate rt (date day) of
        Inl e \<Rightarrow> (Inl e, st)
      | Inr isoKey \<Rightarrow>
          (case redis_set_day isoKey (stampDay schedule isoKey day) st of
             Inl e \<Rightarrow> (Inl e, st)
           | Inr st1 \<Rightarrow>
               (case redis_zadd (nowMs rt) isoKey st1 of
                  Inl e \<Rightarrow> (Inl e, st1)
                | Inr st2 \<Rightarrow> storeDays rt schedule rest (Suc storedCount) st2)))"

text \<open>
  The whole function: the loop, the week's metadata, the update marker. The \<^verbatim>\<open>catch\<close>
  returns 0 and keeps whatever was written before the exception.
\<close>

definition storeWeekSchedule :: "runtime \<Rightarrow> WeekSchedule \<Rightarrow> store \<Rightarrow> nat \<times> store" where
  "storeWeekSchedule rt schedule st =
     (case storeDays rt schedule (days schedule) 0 st of
        (Inl e, st1) \<Rightarrow> (0, st1)
      | (Inr storedCount, st1) \<Rightarrow>
          (case redis_set_week (week schedule)
                  \<lparr>metaWeek = week schedule, metaSourceUrl = sourceUrl schedule,
                    metaScrapedAt = scrapedAt schedule, dayCount = length (days schedule)\<rparr> st1 of
             Inl e \<Rightarrow> (0, st1)
           | Inr st2 \<Rightarrow>
               (case redis_set_latest_update (nowMs rt) st2 of
                  Inl e \<Rightarrow> (0, st2)
                | Inr st3 \<Rightarrow> (storedCount, st3))))"

subsection \<open>Existence checks and lookups\<close>

definition dayScheduleExists :: "string \<Rightarrow> store \<Rightarrow> bool" where
  "dayScheduleExists isoKey st =
     (case redis_exists_day isoKey st of Inl e \<Rightarrow> False | Inr n \<Rightarrow> n = 1)"

definition weekScheduleExists :: "string \<Rightarrow> store \<Rightarrow> bool" where
  "weekScheduleExists w st =
     (case redis_exists_week w st of Inl e \<Rightarrow> False | Inr n \<Rightarrow> n = 1)"

definition getDayScheduleByISO :: "string \<Rightarrow> store \<Rightarrow> DaySchedule option" where
  "getDayScheduleByISO isoKey st =
     (case redis_get_day isoKey st of Inl e \<Rightarrow> None | Inr data \<Rightarrow> data)"

definition getDaySchedule :: "runtime \<Rightarrow> string \<Rightarrow> store \<Rightarrow> DaySchedule option" where
  "getDaySchedule rt d st =
     (case convertToISODate rt d of
        Inl e \<Rightarrow> None
      | Inr isoKey \<Rightarrow> getDayScheduleByISO isoKey st)"

text \<open>
  \<^verbatim>\<open>Promise.all\<close> over the reversed listing, then the filter that drops nulls.
\<close>

definition getAllDaySchedules :: "store \<Rightarrow> DaySchedule list" where
  "getAllDaySchedules st =
     (case redis_zrange True st of
        Inl e \<Rightarrow> []
      | Inr dates \<Rightarrow>
          (if dates = [] then []
           else List.map_filter (\<lambda>d. getDayScheduleByISO d st) dates))"

text \<open>
  \<^verbatim>\<open>today.toISOString().split("T")[0]\<close>: the part of the UTC timestamp before its
  \<^verbatim>\<open>T\<close>. (\<^verbatim>\<open>split\<close> never returns an empty array; the second case is what an
  \<^verbatim>\<open>undefined\<close> first element would give in the key.)
\<close>

definition isoDatePart :: "int \<Rightarrow> string" where
  "isoDatePart t =
     (case split_on CHR ''T'' (toISOString t) of
        p # ps \<Rightarrow> p
      | [] \<Rightarrow> ''undefined'')"

definition getTodaySchedule :: "runtime \<Rightarrow> store \<Rightarrow> DaySchedule option" where
  "getTodaySchedule rt st = getDayScheduleByISO (isoDatePart (nowMs rt)) st"

definition logScrapingOperation ::
  "runtime \<Rightarrow> ScrapingResult \<times> (string \<times> int) option \<Rightarrow> store \<Rightarrow> store" where
  "logScrapingOperation rt result st =
     (case redis_set_log (isoDatePart (nowMs rt)) result st of
        Inl e \<Rightarrow> st
      | Inr st1 \<Rightarrow> st1)"

section \<open>Freshness Evaluator: \<^verbatim>\<open>shouldSkipScraping\<close>\<close>

record SkipCheck =
  shouldSkip :: bool
  reason :: string
  daysAhead :: int

text \<open>
  The local variables of the function. \<open>maxDateOf\<close> is the loop over the listed dates,
  starting from local midnight; a date the host cannot parse compares false and is passed
  over. \<open>daysAheadOf\<close> is the \<^verbatim>\<open>Math.ceil\<close> of the difference in days, and
  \<open>daysSinceUpdateOf\<close> the \<^verbatim>\<open>Math.floor\<close>, with 999 when the stored marker is
  missing (or 0, which JavaScript also takes as false).
\<close>

definition maxDateOf :: "runtime \<Rightarrow> string list \<Rightarrow> int" where
  "maxDateOf rt dates =
     foldl (\<lambda>maxDate dateStr.
              (case parseDate rt dateStr of
                 Some d \<Rightarrow> (if d > maxDate then d else maxDate)
               | None \<Rightarrow> maxDate))
           (setHours0 rt) dates"

definition daysAheadOf :: "runtime \<Rightarrow> string list \<Rightarrow> int" where
  "daysAheadOf rt dates = - ((- (maxDateOf rt dates - setHours0 rt)) div msPerDay)"

definition daysSinceUpdateOf :: "runtime \<Rightarrow> int option \<Rightarrow> int" where
  "daysSinceUpdateOf rt lastUpdate =
     (case lastUpdate of
        Some u \<Rightarrow> (if u \<noteq> 0 then (nowMs rt - u) div msPerDay else 999)
      | None \<Rightarrow> 999)"

definition errorSkipCheck :: SkipCheck where
  "errorSkipCheck = \<lparr>shouldSkip = False, reason = ''Error checking schedules'', daysAhead = 0\<rparr>"

definition shouldSkipScraping :: "runtime \<Rightarrow> store \<Rightarrow> SkipCheck" where
  "shouldSkipScraping rt st =
     (case redis_zrange False st of
        Inl e \<Rightarrow> errorSkipCheck
      | Inr dates \<Rightarrow>
          (if dates = []
           then \<lparr>shouldSkip = False, reason = ''No schedules in database'', daysAhead = 0\<rparr>
           else
             (case redis_get_latest_update st of
                Inl e \<Rightarrow> errorSkipCheck
              | Inr lastUpdate \<Rightarrow>
                  (let ahead = daysAheadOf rt dates;
                       daysSinceUpdate = daysSinceUpdateOf rt lastUpdate
                   in if ahead \<ge> 14 \<and> daysSinceUpdate < 5
                      then \<lparr>shouldSkip = True,
                            reason = ''Have '' @ js_toString ahead
                              @ '' days of schedules, last updated ''
                              @ js_toString daysSinceUpdate @ '' days ago'',
                            daysAhead = ahead\<rparr>
                      else \<lparr>shouldSkip = False,
                            reason = ''Only '' @ js_toString ahead
                              @ '' days ahead, last updated ''
                              @ js_toString daysSinceUpdate @ '' days ago'',
                            daysAhead = ahead\<rparr>))))"

section \<open>Read routes\<close>

text \<open>
  \<^verbatim>\<open>GET /api/schedules/[date]\<close>: the pattern \<^verbatim>\<open>/^\d{2}\.\d{2}$/\<close> is the only check on
  the date; a string that fails it is answered with status 400, any other with status 200
  and the record or null. (\<^verbatim>\<open>getDaySchedule\<close> catches its own exceptions, so the
  route's status 500 is not reached.)
\<close>

definition datePattern_test :: "string \<Rightarrow> bool" where
  "datePattern_test s =
     (case s of
        [d1, d2, dot, m1, m2] \<Rightarrow>
          is_digit d1 \<and> is_digit d2 \<and> dot = CHR ''.'' \<and> is_digit m1 \<and> is_digit m2
      | _ \<Rightarrow> False)"

datatype date_response = Http400 | Http200 "DaySchedule option"

definition GET_schedules_date :: "runtime \<Rightarrow> string \<Rightarrow> store \<Rightarrow> date_response" where
  "GET_schedules_date rt d st =
     (if \<not> datePattern_test d then Http400 else Http200 (getDaySchedule rt d st))"

definition GET_schedules_today :: "runtime \<Rightarrow> store \<Rightarrow> date_response" where
  "GET_schedules_today rt st = Http200 (getTodaySchedule rt st)"

section \<open>Ingestion Pipeline: \<^verbatim>\<open>POST /api/scrape\<close>\<close>

subsection \<open>The outside world of one run\<close>

text \<open>
  A run reads the clock at several program points; \<open>clockAt\<close> gives the reading at each
  (the \<open>k\<close>-th post parsed, the \<open>k\<close>-th schedule stored, the report's time stamp, the log
  entry). The external services are given by their outcomes: \<open>Inl\<close> carries the message
  of the exception thrown. \<open>firecrawlLinks\<close> is the link list of the category page,
  \<open>firecrawlMarkdown\<close> the markdown of a page (possibly missing), \<open>generateObject\<close> the
  object the language model returns for a markdown text (possibly missing).
\<close>

record BlogPost =
  markdown :: string
  url :: string

record LLMObject =
  objWeek :: string
  objDays :: "DaySchedule list"

datatype clock_event = AtSkipCheck | AtParse nat | AtStore nat | AtReport | AtLog

record environment =
  authorization :: "string option"
  CRON_SECRET :: "string option"
  hostTzOffsetMs :: int
  hostTzOffsetAtMidnight :: int
  hostParseDate :: "string \<Rightarrow> int option"
  clockAt :: "clock_event \<Rightarrow> int"
  firecrawlLinks :: "string + string list"
  firecrawlMarkdown :: "string \<Rightarrow> string + string option"
  generateObject :: "string \<Rightarrow> string + LLMObject option"

definition rtAt :: "environment \<Rightarrow> clock_event \<Rightarrow> runtime" where
  "rtAt env ev =
     \<lparr>nowMs = clockAt env ev, tzOffsetMs = hostTzOffsetMs env,
       tzOffsetAtMidnight = hostTzOffsetAtMidnight env, parseDate = hostParseDate env\<rparr>"

subsection \<open>Acquisition (\<^verbatim>\<open>lib/firecrawl.ts\<close>)\<close>

fun js_includes :: "string \<Rightarrow> string \<Rightarrow> bool" where
  "js_includes [] sub = (sub = [])"
| "js_includes (x # xs) sub = (take (length sub) (x # xs) = sub \<or> js_includes xs sub)"

text \<open>\<^verbatim>\<open>Array.from(new Set(xs))\<close>: the first occurrence of each element, in order.\<close>

definition uniq :: "'a list \<Rightarrow> 'a list" where
  "uniq xs = rev (remdups (rev xs))"

definition scrapeCategoryPage :: "environment \<Rightarrow> string + string list" where
  "scrapeCategoryPage env =
     (case firecrawlLinks env of
        Inl msg \<Rightarrow> Inl msg
      | Inr links \<Rightarrow>
          (if links = [] then Inr []
           else Inr (take 2 (uniq (filter
                  (\<lambda>u. js_includes u ''/post/plan-treningowy'' \<and> \<not> js_includes u ''/categories/'')
                  links)))))"

definition scrapeBlogPost :: "environment \<Rightarrow> string \<Rightarrow> string + BlogPost" where
  "scrapeBlogPost env u =
     (case firecrawlMarkdown env u of
        Inl msg \<Rightarrow> Inl msg
      | Inr None \<Rightarrow> Inl (''Failed to scrape blog post (no markdown): '' @ u)
      | Inr (Some md) \<Rightarrow>
          (if md = [] then Inl (''Failed to scrape blog post (no markdown): '' @ u)
           else Inr \<lparr>markdown = md, url = u\<rparr>))"

text \<open>\<^verbatim>\<open>Promise.all\<close>: every result, or the exception of the first post that fails.\<close>

fun promiseAll :: "(string + 'a) list \<Rightarrow> string + 'a list" where
  "promiseAll [] = Inr []"
| "promiseAll (Inl msg # rs) = Inl msg"
| "promiseAll (Inr x # rs) =
     (case promiseAll rs of Inl msg \<Rightarrow> Inl msg | Inr xs \<Rightarrow> Inr (x # xs))"

definition scrapeAllBlogPosts :: "environment \<Rightarrow> string + BlogPost list" where
  "scrapeAllBlogPosts env =
     (case scrapeCategoryPage env of
        Inl msg \<Rightarrow> Inl msg
      | Inr us \<Rightarrow>
          (if us = [] then Inr [] else promiseAll (map (scrapeBlogPost env) us)))"

subsection \<open>Parsing (\<^verbatim>\<open>lib/llm-parser.ts\<close>)\<close>

text \<open>
  \<^verbatim>\<open>parseScheduleWithLLM\<close> adds the source URL and the time stamp to the object and
  rethrows every failure. The schema validation that follows accepts every value of the
  record types used here.
\<close>

definition parseScheduleWithLLM :: "environment \<Rightarrow> nat \<Rightarrow> BlogPost \<Rightarrow> string + WeekSchedule" where
  "parseScheduleWithLLM env k post =
     (case generateObject env (markdown post) of
        Inl msg \<Rightarrow> Inl msg
      | Inr None \<Rightarrow> Inl ''LLM failed to generate valid object''
      | Inr (Some obj) \<Rightarrow>
          Inr \<lparr>week = objWeek obj, sourceUrl = url post,
               scrapedAt = toISOString (clockAt env (AtParse k)), days = objDays obj\<rparr>)"

text \<open>
  The loop of \<^verbatim>\<open>parseAllSchedules\<close> fills two arrays, the schedules and the error
  messages; the function returns the schedules only.
\<close>

fun parseLoop :: "environment \<Rightarrow> nat \<Rightarrow> BlogPost list \<Rightarrow> WeekSchedule list \<times> string list" where
  "parseLoop env k [] = ([], [])"
| "parseLoop env k (post # posts) =
     (case parseLoop env (Suc k) posts of
        (schedules, errs) \<Rightarrow>
          (case parseScheduleWithLLM env k post of
             Inl msg \<Rightarrow> (schedules, (''Failed to parse '' @ url post @ '': '' @ msg) # errs)
           | Inr schedule \<Rightarrow> (schedule # schedules, errs)))"

definition parseAllSchedules :: "environment \<Rightarrow> BlogPost list \<Rightarrow> WeekSchedule list" where
  "parseAllSchedules env posts = fst (parseLoop env 0 posts)"

subsection \<open>The route handler\<close>

record tally =
  storedSchedules :: "string list"
  skippedSchedules :: "string list"
  loopErrors :: "string list"
  totalDaysStored :: nat

definition emptyTally :: tally where
  "emptyTally = \<lparr>storedSchedules = [], skippedSchedules = [], loopErrors = [], totalDaysStored = 0\<rparr>"

text \<open>
  The body of the loop over the parsed schedules. (Neither \<^verbatim>\<open>weekScheduleExists\<close> nor
  \<^verbatim>\<open>storeWeekSchedule\<close> throws, so the loop's own \<^verbatim>\<open>catch\<close> is not reached.)
\<close>

definition processSchedule ::
  "environment \<Rightarrow> nat \<Rightarrow> WeekSchedule \<Rightarrow> tally \<times> store \<Rightarrow> tally \<times> store" where
  "processSchedule env k schedule acc =
     (case acc of (t, st) \<Rightarrow>
        (if weekScheduleExists (week schedule) st
         then (t\<lparr>skippedSchedules := skippedSchedules t @ [week schedule]\<rparr>, st)
         else
           (case storeWeekSchedule (rtAt env (AtStore k)) schedule st of
              (daysStored, st1) \<Rightarrow>
                (if daysStored > 0
                 then (t\<lparr>storedSchedules := storedSchedules t @ [week schedule],
                          totalDaysStored := totalDaysStored t + daysStored\<rparr>, st1)
                 else (t\<lparr>loopErrors := loopErrors t
                            @ [''Failed to store schedule for week '' @ week schedule]\<rparr>, st1)))))"

fun storeLoop ::
  "environment \<Rightarrow> nat \<Rightarrow> WeekSchedule list \<Rightarrow> tally \<times> store \<Rightarrow> tally \<times> store" where
  "storeLoop env k [] acc = acc"
| "storeLoop env k (schedule # schedules) acc =
     storeLoop env (Suc k) schedules (processSchedule env k schedule acc)"

text \<open>
  The responses of the handler, one constructor per \<^verbatim>\<open>return\<close>: status 401; the skipped
  run (status 200, with reason and days ahead); no posts found (status 200); the completed
  run (status 200, with the stored and skipped week identifiers and the number of days
  stored); the fatal error (status 500). The \<^verbatim>\<open>duration\<close> field is left out.
\<close>

datatype response =
    Unauthorized401
  | Skipped200 ScrapingResult string int
  | NoPosts200 ScrapingResult
  | Completed200 ScrapingResult "string list" "string list" nat
  | Fatal500 ScrapingResult

fun statusOf :: "response \<Rightarrow> nat" where
  "statusOf Unauthorized401 = 401"
| "statusOf (Skipped200 r why ahead) = 200"
| "statusOf (NoPosts200 r) = 200"
| "statusOf (Completed200 r st sk n) = 200"
| "statusOf (Fatal500 r) = 500"

fun reportOf :: "response \<Rightarrow> ScrapingResult option" where
  "reportOf Unauthorized401 = None"
| "reportOf (Skipped200 r why ahead) = Some r"
| "reportOf (NoPosts200 r) = Some r"
| "reportOf (Completed200 r st sk n) = Some r"
| "reportOf (Fatal500 r) = Some r"

definition authorized :: "environment \<Rightarrow> bool" where
  "authorized env =
     (case CRON_SECRET env of
        None \<Rightarrow> False
      | Some cronSecret \<Rightarrow>
          cronSecret \<noteq> [] \<and> authorization env = Some (''Bearer '' @ cronSecret))"

definition POST :: "environment \<Rightarrow> store \<Rightarrow> response \<times> store" where
  "POST env st =
     (if \<not> authorized env then (Unauthorized401, st)
      else
        (let skipCheck = shouldSkipScraping (rtAt env AtSkipCheck) st;
             stamp = toISOString (clockAt env AtReport)
         in if shouldSkip skipCheck
            then
              (let result = \<lparr>success = True, schedulesProcessed = 0, errors = [], urls = [],
                              timestamp = stamp\<rparr>
               in (Skipped200 result (reason skipCheck) (daysAhead skipCheck),
                   logScrapingOperation (rtAt env AtLog)
                     (result, Some (reason skipCheck, daysAhead skipCheck)) st))
            else
              (case scrapeAllBlogPosts env of
                 Inl msg \<Rightarrow>
                   (let result = \<lparr>success = False, schedulesProcessed = 0, errors = [msg],
                                   urls = [], timestamp = stamp\<rparr>
                    in (Fatal500 result, logScrapingOperation (rtAt env AtLog) (result, None) st))
               | Inr posts \<Rightarrow>
                   (if posts = []
                    then
                      (let result = \<lparr>success = False, schedulesProcessed = 0,
                                      errors = [''No blog posts found''], urls = [],
                                      timestamp = stamp\<rparr>
                       in (NoPosts200 result,
                           logScrapingOperation (rtAt env AtLog) (result, None) st))
                    else
                      (case storeLoop env 0 (parseAllSchedules env posts) (emptyTally, st) of
                         (t, st1) \<Rightarrow>
                           (let result = \<lparr>success = (loopErrors t = []),
                                           schedulesProcessed = length (storedSchedules t),
                                           errors = loopErrors t, urls = map url posts,
                                           timestamp = stamp\<rparr>
                            in (Completed200 result (storedSchedules t) (skippedSchedules t)
                                  (totalDaysStored t),
                                logScrapingOperation (rtAt env AtLog) (result, None) st1)))))))"

section \<open>Notions used to state the properties\<close>

text \<open>
  The year rule in the words of the specification, with months numbered 1 to 12: the
  reference year, one less for a December date seen in January, one more for a January
  date seen in December.
\<close>

definition spec_year :: "int \<Rightarrow> int \<Rightarrow> int \<Rightarrow> int" where
  "spec_year refYear refMonth partialMonth =
     (if refMonth = 1 \<and> partialMonth = 12 then refYear - 1
      else if refMonth = 12 \<and> partialMonth = 1 then refYear + 1
      else refYear)"

text \<open>
  The days ahead in the words of the specification: the latest date among the listed ones
  less today, in whole days, and 0 when nothing is listed or the latest date is past. The
  day of a listed date is the day number of the instant it parses to; today is the current
  local day.
\<close>

definition spec_daysAhead :: "runtime \<Rightarrow> string list \<Rightarrow> int" where
  "spec_daysAhead rt dates =
     foldl (\<lambda>ahead dateStr.
              (case parseDate rt dateStr of
                 Some d \<Rightarrow> max ahead (d div msPerDay - localDay rt)
               | None \<Rightarrow> ahead))
           0 dates"

text \<open>The UTC calendar date of an instant and the local calendar date of a runtime, as keys.\<close>

definition utcDateKey :: "int \<Rightarrow> string" where
  "utcDateKey t =
     (case civil_from_days (t div msPerDay) of (y, m, d) \<Rightarrow>
        isoYear y @ ''-'' @ pad2 m @ ''-'' @ pad2 d)"

definition localDateKey :: "runtime \<Rightarrow> string" where
  "localDateKey rt = isoYear (getFullYear rt) @ ''-'' @ pad2 (getMonth rt + 1) @ ''-'' @ pad2 (getDate rt)"

text \<open>
  Every day of the submission has a date with a \<^verbatim>\<open>.\<close> in it, which is when
  \<^verbatim>\<open>convertToISODate\<close> returns for each of them.
\<close>

definition datesHaveMonth :: "WeekSchedule \<Rightarrow> bool" where
  "datesHaveMonth schedule = list_all (\<lambda>day. CHR ''.'' \<in> set (date day)) (days schedule)"

text \<open>The last day of a list whose date normalizes to the key \<open>k\<close>.\<close>

fun lastDayFor :: "runtime \<Rightarrow> string \<Rightarrow> DaySchedule list \<Rightarrow> DaySchedule option" where
  "lastDayFor rt k [] = None"
| "lastDayFor rt k (day # rest) =
     (case lastDayFor rt k rest of
        Some later \<Rightarrow> Some later
      | None \<Rightarrow> (if convertToISODate rt (date day) = Inr k then Some day else None))"

section \<open>Example data\<close>

definition emptyStore :: store where
  "emptyStore =
     \<lparr>dayRecs = Map.empty, daysList = [], weekRecs = Map.empty, latest_update = None,
       scrapingLogs = Map.empty, failing = {}\<rparr>"

definition utcRuntime :: "int \<Rightarrow> runtime" where
  "utcRuntime t =
     \<lparr>nowMs = t, tzOffsetMs = 0, tzOffsetAtMidnight = 0, parseDate = isoDateOnly\<rparr>"

definition jan3_2025 :: runtime where
  "jan3_2025 = utcRuntime (days_from_civil 2025 1 3 * msPerDay)"

definition dec20_2024 :: runtime where
  "dec20_2024 = utcRuntime (days_from_civil 2024 12 20 * msPerDay)"

definition apr10_2025 :: runtime where
  "apr10_2025 = utcRuntime (days_from_civil 2025 4 10 * msPerDay)"

text \<open>Noon UTC on 2025-01-01, and stores that list one date and an update marker.\<close>

definition noon_jan1_2025 :: runtime where
  "noon_jan1_2025 = utcRuntime (days_from_civil 2025 1 1 * msPerDay + 12 * 3600000)"

definition listingStore :: "string \<Rightarrow> int option \<Rightarrow> store" where
  "listingStore d lastUpdate = emptyStore\<lparr>daysList := [(d, 0)], latest_update := lastUpdate\<rparr>"

text \<open>Noon on 2025-01-01 in a zone one hour east of UTC.\<close>

definition cet_noon_jan1_2025 :: runtime where
  "cet_noon_jan1_2025 =
     \<lparr>nowMs = days_from_civil 2025 1 1 * msPerDay + 11 * 3600000,
       tzOffsetMs = 3600000, tzOffsetAtMidnight = 3600000, parseDate = isoDateOnly\<rparr>"

text \<open>
  Half past midnight on 2025-01-02 in a zone one hour east of UTC: still 2025-01-01 in UTC.
\<close>

definition cet_after_midnight :: runtime where
  "cet_after_midnight =
     \<lparr>nowMs = days_from_civil 2025 1 1 * msPerDay + 23 * 3600000 + 30 * 60000,
       tzOffsetMs = 3600000, tzOffsetAtMidnight = 3600000, parseDate = isoDateOnly\<rparr>"

definition speedSession :: TrainingSession where
  "speedSession =
     \<lparr>type = ''Speed'', exercises = [''ROW'', ''box jump''], trainingMethod = ''2 x EMOM'',
       mainPartDuration = ''21 min''\<rparr>"

definition athleticSession :: TrainingSession where
  "athleticSession =
     \<lparr>type = ''Athletic'', exercises = [''deadlift''], trainingMethod = ''5 x 5'',
       mainPartDuration = ''30 min''\<rparr>"

definition parsedDay :: "string \<Rightarrow> string \<Rightarrow> TrainingSession list \<Rightarrow> DaySchedule" where
  "parsedDay d n sessions =
     \<lparr>date = d, dayName = n, isoDate = None, daySourceUrl = None, dayScrapedAt = None,
       trainingSessions = sessions\<rparr>"

definition twoDayStore :: store where
  "twoDayStore =
     emptyStore\<lparr>dayRecs :=
       [''2025-01-01'' \<mapsto> parsedDay ''01.01'' ''Sroda'' [speedSession],
        ''2025-01-02'' \<mapsto> parsedDay ''02.01'' ''Czwartek'' [athleticSession]]\<rparr>"

definition objJan06 :: LLMObject where
  "objJan06 =
     \<lparr>objWeek = ''06/01/2025-12/01/2025'',
       objDays = [parsedDay ''06.01'' ''Poniedzialek'' [speedSession],
                  parsedDay ''07.01'' ''Wtorek'' []]\<rparr>"

definition objJan13 :: LLMObject where
  "objJan13 =
     \<lparr>objWeek = ''13/01/2025-19/01/2025'',
       objDays = [parsedDay ''13.01'' ''Poniedzialek'' [athleticSession],
                  parsedDay ''14.01'' ''Wtorek'' [speedSession]]\<rparr>"

text \<open>A re-post of the first week under another identifier, with a changed Monday.\<close>

definition objJan06_repost :: LLMObject where
  "objJan06_repost =
     \<lparr>objWeek = ''06/01/2025-12/01/2025 (korekta)'',
       objDays = [parsedDay ''06.01'' ''Poniedzialek'' [athleticSession]]\<rparr>"

text \<open>An object whose second day has a date without a month part.\<close>

definition objOct20_malformed :: LLMObject where
  "objOct20_malformed =
     \<lparr>objWeek = ''20/10/2025-26/10/2025'',
       objDays = [parsedDay ''20.10'' ''Poniedzialek'' [speedSession],
                  parsedDay ''2110'' ''Wtorek'' [speedSession]]\<rparr>"

definition urlJan06 :: string where
  "urlJan06 = ''https://gym.example/post/plan-treningowy''"

definition urlJan13 :: string where
  "urlJan13 = ''https://gym.example/post/plan-treningowy-13-01-19-01''"

definition exampleClock :: "int \<Rightarrow> clock_event \<Rightarrow> int" where
  "exampleClock t ev =
     (case ev of
        AtSkipCheck \<Rightarrow> t
      | AtParse k \<Rightarrow> t + 1000 + 1000 * int k
      | AtStore k \<Rightarrow> t + 5000 + 1000 * int k
      | AtReport \<Rightarrow> t + 9000
      | AtLog \<Rightarrow> t + 9500)"

definition exampleEnv ::
  "int \<Rightarrow> string list \<Rightarrow> (string \<Rightarrow> string + LLMObject option) \<Rightarrow> environment" where
  "exampleEnv t links llm =
     \<lparr>authorization = Some ''Bearer s3cret'', CRON_SECRET = Some ''s3cret'',
       hostTzOffsetMs = 0, hostTzOffsetAtMidnight = 0, hostParseDate = isoDateOnly,
       clockAt = exampleClock t,
       firecrawlLinks = Inr links, firecrawlMarkdown = (\<lambda>u. Inr (Some (''# '' @ u))),
       generateObject = llm\<rparr>"

definition jan6_8am :: int where
  "jan6_8am = days_from_civil 2025 1 6 * msPerDay + 8 * 3600000"

definition llmBothWeeks :: "string \<Rightarrow> string + LLMObject option" where
  "llmBothWeeks md =
     (if md = ''# '' @ urlJan13 then Inr (Some objJan13)
      else if md = ''# '' @ urlJan06 then Inr (Some objJan06)
      else Inl ''No object generated'')"


definition llmRepost :: "string \<Rightarrow> string + LLMObject option" where
  "llmRepost md =
     (if md = ''# '' @ urlJan06 then Inr (Some objJan06_repost) else Inl ''No object generated'')"

definition llmMalformed :: "string \<Rightarrow> string + LLMObject option" where
  "llmMalformed md = Inr (Some objOct20_malformed)"

text \<open>
  Runs: both weeks found, the next week listed first; the same listing with a parser that
  fails on the first post; a category page without schedule posts; one post whose object
  has a malformed date, read twice an hour apart; a re-post read an hour after the first run.
\<close>

definition envBothWeeks :: environment where
  "envBothWeeks = exampleEnv jan6_8am [urlJan13, urlJan06] llmBothWeeks"


definition envNoPosts :: environment where
  "envNoPosts = exampleEnv jan6_8am [''https://gym.example/categories/plan-treningowy''] llmBothWeeks"

definition envMalformed :: "int \<Rightarrow> environment" where
  "envMalformed t = exampleEnv t [urlJan06] llmMalformed"

definition envRepost :: environment where
  "envRepost = exampleEnv (jan6_8am + 3600000) [urlJan06] llmRepost"

text \<open>
  The same two posts read again an hour later; the stores the example runs leave behind;
  the two posts and two of the parsed submissions, written out.
\<close>

definition envBothWeeksLater :: environment where
  "envBothWeeksLater = exampleEnv (jan6_8am + 3600000) [urlJan13, urlJan06] llmBothWeeks"

definition afterBothWeeks :: store where
  "afterBothWeeks = snd (POST envBothWeeks emptyStore)"

definition afterBothWeeksAgain :: store where
  "afterBothWeeksAgain = snd (POST envBothWeeksLater afterBothWeeks)"

definition afterMalformedFirst :: store where
  "afterMalformedFirst = snd (POST (envMalformed jan6_8am) emptyStore)"

definition afterMalformedSecond :: store where
  "afterMalformedSecond = snd (POST (envMalformed (jan6_8am + 3600000)) afterMalformedFirst)"

definition afterRepost :: store where
  "afterRepost = snd (POST envRepost afterBothWeeks)"

definition postJan06 :: BlogPost where
  "postJan06 = \<lparr>markdown = ''# '' @ urlJan06, url = urlJan06\<rparr>"

definition postJan13 :: BlogPost where
  "postJan13 = \<lparr>markdown = ''# '' @ urlJan13, url = urlJan13\<rparr>"

definition weekJan06_second :: WeekSchedule where
  "weekJan06_second =
     \<lparr>week = objWeek objJan06, sourceUrl = urlJan06,
       scrapedAt = ''2025-01-06T08:00:02.000Z'', days = objDays objJan06\<rparr>"

definition weekRepost :: WeekSchedule where
  "weekRepost =
     \<lparr>week = objWeek objJan06_repost, sourceUrl = urlJan06,
       scrapedAt = ''2025-01-06T09:00:01.000Z'', days = objDays objJan06_repost\<rparr>"

section \<open>Properties of the host functions\<close>

lemma split_on_nonempty: "split_on c s \<noteq> []"
  by (induction s) (auto split: list.splits)

lemma split_on_prefix: "c \<notin> set p \<Longrightarrow> split_on c (p @ c # r) = p # split_on c r"
  by (induction p) auto

lemma split_on_no_sep: "c \<notin> set s \<Longrightarrow> split_on c s = [s]"
  by (induction s) auto

lemma split_on_sep: "c \<in> set s \<Longrightarrow> \<exists>p q rest. split_on c s = p # q # rest"
proof (induction s)
  case Nil
  then show ?case by simp
next
  case (Cons x xs)
  show ?case
  proof (cases "x = c")
    case True
    obtain p ps where "split_on c xs = p # ps"
      using split_on_nonempty [of c xs] by (cases "split_on c xs") auto
    with True show ?thesis by simp
  next
    case False
    with Cons.prems have "c \<in> set xs" by auto
    from Cons.IH [OF this] obtain p q rest where "split_on c xs = p # q # rest" by blast
    with False show ?thesis by simp
  qed
qed

lemma is_digit_cases:
  assumes "is_digit c"
  obtains "c = CHR ''0''" | "c = CHR ''1''" | "c = CHR ''2''" | "c = CHR ''3''" | "c = CHR ''4''"
    | "c = CHR ''5''" | "c = CHR ''6''" | "c = CHR ''7''" | "c = CHR ''8''" | "c = CHR ''9''"
  using assms unfolding is_digit_def by auto

lemma digit_val_range: "is_digit c \<Longrightarrow> 0 \<le> digit_val c \<and> digit_val c \<le> 9"
  by (erule is_digit_cases) (simp_all add: digit_val_def)

lemma digit_val_char: "is_digit c \<Longrightarrow> digitChar (digit_val c) = c"
  by (erule is_digit_cases) (simp_all add: digit_val_def digitChar_def)

lemma is_digit_not_dot: "is_digit c \<Longrightarrow> c \<noteq> CHR ''.''"
  by (erule is_digit_cases) simp_all

lemma showDecimal_two_digits:
  assumes "0 \<le> a" "a \<le> 9" "0 \<le> b" "b \<le> 9"
  shows "padStart 2 CHR ''0'' (showDecimal (10 * a + b)) = [digitChar a, digitChar b]"
proof (cases "a = 0")
  case True
  with assms show ?thesis
    by (simp add: showDecimal.simps [of b] padStart_def digitChar_def)
next
  case False
  have "showDecimal (10 * a + b) = showDecimal a @ [digitChar b]"
    using False assms by (subst showDecimal.simps) simp
  moreover have "showDecimal a = [digitChar a]"
    using assms by (subst showDecimal.simps) simp
  ultimately show ?thesis by (simp add: padStart_def)
qed

lemma pad2_two_digits:
  assumes "is_digit a" "is_digit b"
  shows "pad2 (10 * digit_val a + digit_val b) = [a, b]"
proof -
  have ra: "0 \<le> digit_val a" "digit_val a \<le> 9" and rb: "0 \<le> digit_val b" "digit_val b \<le> 9"
    using assms digit_val_range by auto
  then have "padStart 2 CHR ''0'' (showDecimal (10 * digit_val a + digit_val b))
      = [digitChar (digit_val a), digitChar (digit_val b)]"
    by (rule showDecimal_two_digits)
  then show ?thesis
    using ra rb assms by (simp add: pad2_def js_toString_def digit_val_char)
qed

lemma js_Number_two_digits:
  "is_digit a \<Longrightarrow> is_digit b \<Longrightarrow> js_Number [a, b] = Num (10 * digit_val a + digit_val b)"
  by (simp add: js_Number_def)

lemma split_on_DD_MM:
  assumes "is_digit d1" "is_digit d2" "is_digit m1" "is_digit m2"
  shows "split_on CHR ''.'' [d1, d2, CHR ''.'', m1, m2] = [[d1, d2], [m1, m2]]"
  using assms by (simp add: is_digit_not_dot)

lemma digit_chars: "digitChar d \<in> set ''0123456789'' \<or> digitChar d = ''0123456789'' ! nat d \<and> 10 \<le> d"
proof (cases "d < 10")
  case True
  then have "nat d < length ''0123456789''" by simp
  then have "''0123456789'' ! nat d \<in> set ''0123456789''" by (rule nth_mem)
  then show ?thesis by (simp add: digitChar_def)
next
  case False
  then show ?thesis by (simp add: digitChar_def)
qed

lemma set_showDecimal: "set (showDecimal n) \<subseteq> set ''0123456789''"
proof (induction n rule: showDecimal.induct)
  case (1 n)
  show ?case
  proof (cases "n < 10")
    case True
    then show ?thesis using digit_chars [of n] by (subst showDecimal.simps) auto
  next
    case False
    have "n mod 10 < 10" by simp
    with digit_chars [of "n mod 10"] "1.IH" [OF False] False show ?thesis
      by (subst showDecimal.simps) auto
  qed
qed

lemma no_T_showDecimal: "CHR ''T'' \<notin> set (showDecimal n)"
  using set_showDecimal [of n] by auto

lemma no_T_js_toString: "CHR ''T'' \<notin> set (js_toString i)"
  by (simp add: js_toString_def no_T_showDecimal)

lemma no_T_padStart: "CHR ''T'' \<notin> set s \<Longrightarrow> CHR ''T'' \<notin> set (padStart n CHR ''0'' s)"
  by (auto simp: padStart_def)

lemma no_T_pad2: "CHR ''T'' \<notin> set (pad2 i)"
  by (simp add: pad2_def no_T_padStart no_T_js_toString)

lemma no_T_isoYear: "CHR ''T'' \<notin> set (isoYear y)"
  by (simp add: isoYear_def no_T_padStart no_T_showDecimal)

lemma no_T_utcDateKey: "CHR ''T'' \<notin> set (utcDateKey t)"
  by (simp add: utcDateKey_def no_T_isoYear no_T_pad2 split: prod.splits)

lemma toISOString_utcDateKey: "\<exists>r. toISOString t = utcDateKey t @ CHR ''T'' # r"
  by (simp add: toISOString_def utcDateKey_def Let_def split: prod.splits)

lemma isoDatePart_utc: "isoDatePart t = utcDateKey t"
proof -
  obtain r where "toISOString t = utcDateKey t @ CHR ''T'' # r"
    using toISOString_utcDateKey by blast
  then show ?thesis
    by (simp add: isoDatePart_def split_on_prefix [OF no_T_utcDateKey])
qed

section \<open>Date Normalizer\<close>

lemma convertToISODate_parsed:
  assumes "map js_Number (split_on CHR ''.'' d) = Num dd # Num mm # rest"
  shows "convertToISODate rt d =
           Inr (js_toString (spec_year (getFullYear rt) (getMonth rt + 1) mm)
                @ ''-'' @ pad2 mm @ ''-'' @ pad2 dd)"
  using assms
  by (auto simp: convertToISODate_def spec_year_def Let_def pad2_def jsnum_toString_def)

lemma convertToISODate_fails_iff:
  "(\<exists>e. convertToISODate rt d = Inl e) \<longleftrightarrow> CHR ''.'' \<notin> set d"
proof (cases "CHR ''.'' \<in> set d")
  case True
  from split_on_sep [OF this] obtain p q rest where "split_on CHR ''.'' d = p # q # rest" by blast
  then have "\<exists>s. convertToISODate rt d = Inr s"
    by (simp add: convertToISODate_def Let_def)
  with True show ?thesis by auto
next
  case False
  then have "convertToISODate rt d = Inl TypeError"
    by (simp add: convertToISODate_def split_on_no_sep)
  with False show ?thesis by auto
qed

lemma datePattern_test_shape:
  "datePattern_test d \<longleftrightarrow>
     (\<exists>d1 d2 m1 m2. d = [d1, d2, CHR ''.'', m1, m2] \<and> is_digit d1 \<and> is_digit d2 \<and> is_digit m1 \<and> is_digit m2)"
  by (auto simp: datePattern_test_def split: list.splits)

lemma convertToISODate_DD_MM:
  assumes "datePattern_test d"
  shows "convertToISODate rt d =
      Inr (js_toString (spec_year (getFullYear rt) (getMonth rt + 1)
                           (10 * digit_val (d ! 3) + digit_val (d ! 4)))
           @ ''-'' @ [d ! 3, d ! 4] @ ''-'' @ [d ! 0, d ! 1])"
proof -
  from assms obtain d1 d2 m1 m2 where
    d: "d = [d1, d2, CHR ''.'', m1, m2]" and dig: "is_digit d1" "is_digit d2" "is_digit m1" "is_digit m2"
    unfolding datePattern_test_shape by blast
  have "map js_Number (split_on CHR ''.'' d) =
      [Num (10 * digit_val d1 + digit_val d2), Num (10 * digit_val m1 + digit_val m2)]"
    unfolding d split_on_DD_MM [OF dig] using dig by (simp add: js_Number_two_digits)
  from convertToISODate_parsed [OF this, of rt] show ?thesis
    using dig by (simp add: d pad2_two_digits)
qed

lemma parse_30_12: "map js_Number (split_on CHR ''.'' ''30.12'') = [Num 30, Num 12]"
  by code_simp

lemma parse_02_01: "map js_Number (split_on CHR ''.'' ''02.01'') = [Num 2, Num 1]"
  by code_simp

lemma show_2024: "js_toString 2024 = ''2024''" by code_simp
lemma show_2025: "js_toString 2025 = ''2025''" by code_simp
lemma pad2_vals: "pad2 30 = ''30''" "pad2 12 = ''12''" "pad2 2 = ''02''" "pad2 1 = ''01''"
  by code_simp+

text \<open>
  Claim C2. For every date string whose two parts read as the numbers \<open>dd\<close> and \<open>mm\<close>, and
  every runtime, \<^verbatim>\<open>convertToISODate\<close> returns the year of the specification's rule (the
  runtime's local year; one less for month 12 seen in January; one more for month 1 seen
  in December), followed by the month and the day, each padded to two digits. With a local
  date in January 2025 the date \<^verbatim>\<open>30.12\<close> becomes 2024-12-30, and with a local date in
  December 2024 the date \<^verbatim>\<open>02.01\<close> becomes 2025-01-02.
\<close>

theorem date_normalizer_year_rule:
  "(map js_Number (split_on CHR ''.'' d) = Num dd # Num mm # rest \<longrightarrow>
      convertToISODate rt d =
        Inr (js_toString (spec_year (getFullYear rt) (getMonth rt + 1) mm)
             @ ''-'' @ pad2 mm @ ''-'' @ pad2 dd))
   \<and> (getFullYear rt = 2025 \<and> getMonth rt + 1 = 1 \<longrightarrow>
        convertToISODate rt ''30.12'' = Inr ''2024-12-30'')
   \<and> (getFullYear rt = 2024 \<and> getMonth rt + 1 = 12 \<longrightarrow>
        convertToISODate rt ''02.01'' = Inr ''2025-01-02'')"
proof (intro conjI impI)
  assume "map js_Number (split_on CHR ''.'' d) = Num dd # Num mm # rest"
  then show "convertToISODate rt d =
        Inr (js_toString (spec_year (getFullYear rt) (getMonth rt + 1) mm)
             @ ''-'' @ pad2 mm @ ''-'' @ pad2 dd)"
    by (rule convertToISODate_parsed)
next
  assume "getFullYear rt = 2025 \<and> getMonth rt + 1 = 1"
  then show "convertToISODate rt ''30.12'' = Inr ''2024-12-30''"
    using convertToISODate_parsed [OF parse_30_12, of rt]
    by (simp add: spec_year_def show_2024 pad2_vals)
next
  assume "getFullYear rt = 2024 \<and> getMonth rt + 1 = 12"
  then show "convertToISODate rt ''02.01'' = Inr ''2025-01-02''"
    using convertToISODate_parsed [OF parse_02_01, of rt]
    by (simp add: spec_year_def show_2025 pad2_vals)
qed

lemma jan3_fields: "getFullYear jan3_2025 = 2025" "getMonth jan3_2025 + 1 = 1" "getDate jan3_2025 = 3"
  by code_simp+
lemma dec20_fields: "getFullYear dec20_2024 = 2024" "getMonth dec20_2024 + 1 = 12" "getDate dec20_2024 = 20"
  by code_simp+

text \<open>The rule applied on 2025-01-03 and on 2024-12-20.\<close>

theorem date_normalizer_year_rule_witness:
  "(getFullYear jan3_2025 = 2025 \<and> getMonth jan3_2025 + 1 = 1 \<and> getDate jan3_2025 = 3
      \<and> convertToISODate jan3_2025 ''30.12'' = Inr ''2024-12-30'')
   \<and> (getFullYear dec20_2024 = 2024 \<and> getMonth dec20_2024 + 1 = 12 \<and> getDate dec20_2024 = 20
      \<and> convertToISODate dec20_2024 ''02.01'' = Inr ''2025-01-02'')
   \<and> (map js_Number (split_on CHR ''.'' ''30.12'') = [Num 30, Num 12])"
proof -
  have a: "convertToISODate jan3_2025 ''30.12'' = Inr ''2024-12-30''"
    using date_normalizer_year_rule [of "''30.12''" 30 12 "[]" jan3_2025] jan3_fields
    by blast
  have b: "convertToISODate dec20_2024 ''02.01'' = Inr ''2025-01-02''"
    using date_normalizer_year_rule [of "''02.01''" 2 1 "[]" dec20_2024] dec20_fields
    by blast
  show ?thesis
    using a b jan3_fields dec20_fields parse_30_12 by blast
qed

lemma apr10_fields: "getFullYear apr10_2025 = 2025" "getMonth apr10_2025 + 1 = 4"
  by code_simp+

lemma show_2025_apr: "js_toString (spec_year 2025 4 4) = ''2025''"
  by code_simp

lemma pattern_31_04: "datePattern_test ''31.04''"
  by code_simp

text \<open>
  Claim C3, as the code has it. The Date Normalizer does not check the day against the
  month: for every input of the shape \<^verbatim>\<open>DD.MM\<close> (two digits, a dot, two digits), whether
  or not it denotes a real calendar date, \<^verbatim>\<open>convertToISODate\<close> returns the year of the
  year rule followed by the month digits and the day digits as given. The by-date route
  answers with status 400 exactly for the inputs not of that shape, and the function's only
  failure is the \<^verbatim>\<open>TypeError\<close> on a string without a dot.
\<close>

theorem date_normalizer_accepts_any_day_month:
  "(datePattern_test d \<longrightarrow>
      convertToISODate rt d =
        Inr (js_toString (spec_year (getFullYear rt) (getMonth rt + 1)
                            (10 * digit_val (d ! 3) + digit_val (d ! 4)))
             @ ''-'' @ [d ! 3, d ! 4] @ ''-'' @ [d ! 0, d ! 1]))
   \<and> (GET_schedules_date rt d st = Http400 \<longleftrightarrow> \<not> datePattern_test d)
   \<and> ((\<exists>e. convertToISODate rt d = Inl e) \<longleftrightarrow> CHR ''.'' \<notin> set d)"
  using convertToISODate_DD_MM [of d rt] convertToISODate_fails_iff [of rt d]
  by (simp add: GET_schedules_date_def)

text \<open>The 31st of April is accepted on 2025-04-10 and becomes the key 2025-04-31.\<close>

theorem date_normalizer_accepts_any_day_month_witness:
  "datePattern_test ''31.04'' \<and> convertToISODate apr10_2025 ''31.04'' = Inr ''2025-04-31''"
  using date_normalizer_accepts_any_day_month [of "''31.04''" apr10_2025 emptyStore]
    pattern_31_04 apr10_fields show_2025_apr
  by (simp add: digit_val_def)

text \<open>
  Claim C3, as stated, fails: 2025-04-31 is not a calendar date, yet the normalizer returns
  a key for it and the route answers with status 200.
\<close>

theorem date_normalizer_rejects_counterexample:
  "\<not> real_calendar_date 2025 4 31
   \<and> getFullYear apr10_2025 = 2025
   \<and> convertToISODate apr10_2025 ''31.04'' = Inr ''2025-04-31''
   \<and> GET_schedules_date apr10_2025 ''31.04'' emptyStore = Http200 None"
  by code_simp

section \<open>Freshness Evaluator\<close>

lemma zrange_all_empty_iff: "zrange_all z = [] \<longleftrightarrow> z = []"
proof -
  have "length (zrange_all z) = length z" by (simp add: zrange_all_def)
  then show ?thesis by (metis length_0_conv)
qed

lemma shouldSkipScraping_decision:
  "shouldSkip (shouldSkipScraping rt st) \<longleftrightarrow>
     daysAhead (shouldSkipScraping rt st) \<ge> 14 \<and> daysSinceUpdateOf rt (latest_update st) < 5"
  by (simp add: shouldSkipScraping_def redis_zrange_def redis_get_latest_update_def
      errorSkipCheck_def Let_def)

lemma shouldSkipScraping_daysAhead:
  "failing st = {} \<Longrightarrow> daysList st \<noteq> [] \<Longrightarrow>
     daysAhead (shouldSkipScraping rt st) = daysAheadOf rt (zrange_all (daysList st))"
  by (simp add: shouldSkipScraping_def redis_zrange_def redis_get_latest_update_def
      Let_def zrange_all_empty_iff)

subsection \<open>On a host in UTC\<close>

text \<open>
  When local time is UTC and the listed dates parse to UTC midnights, local midnight and the
  listed dates are whole days apart, and the days ahead the function computes are the days
  ahead of the specification.
\<close>

lemma msPerDay_pos: "0 < msPerDay"
  by (simp add: msPerDay_def)

lemma maxDateOf_whole_days:
  assumes "\<And>s d. parseDate rt s = Some d \<Longrightarrow> d mod msPerDay = 0"
  shows "foldl (\<lambda>maxDate dateStr.
              (case parseDate rt dateStr of
                 Some d \<Rightarrow> (if d > maxDate then d else maxDate)
               | None \<Rightarrow> maxDate))
           ((localDay rt + b) * msPerDay) dates
       = (localDay rt
          + foldl (\<lambda>ahead dateStr.
              (case parseDate rt dateStr of
                 Some d \<Rightarrow> max ahead (d div msPerDay - localDay rt)
               | None \<Rightarrow> ahead))
            b dates) * msPerDay"
proof (induction dates arbitrary: b)
  case Nil
  then show ?case by simp
next
  case (Cons s dates)
  show ?case
  proof (cases "parseDate rt s")
    case None
    then show ?thesis using Cons.IH [of b] by simp
  next
    case (Some d)
    have d: "d = (d div msPerDay) * msPerDay"
      using assms [OF Some] by (simp add: mod_eq_0_iff_dvd)
    show ?thesis
    proof (cases "d > (localDay rt + b) * msPerDay")
      case True
      then have "(localDay rt + b) * msPerDay < (d div msPerDay) * msPerDay"
        using d by simp
      then have "d div msPerDay > localDay rt + b"
        using msPerDay_pos by (simp add: mult_less_cancel_right)
      then have m: "max b (d div msPerDay - localDay rt) = d div msPerDay - localDay rt"
        by simp
      have "d = (localDay rt + (d div msPerDay - localDay rt)) * msPerDay"
        using d by simp
      with Cons.IH [of "d div msPerDay - localDay rt"] True Some m show ?thesis
        by simp
    next
      case False
      then have "(d div msPerDay) * msPerDay \<le> (localDay rt + b) * msPerDay"
        using d by simp
      then have "d div msPerDay \<le> localDay rt + b"
        using msPerDay_pos by (simp add: mult_le_cancel_right)
      then have m: "max b (d div msPerDay - localDay rt) = b"
        by simp
      with Cons.IH [of b] False Some show ?thesis by simp
    qed
  qed
qed

lemma daysAheadOf_utc:
  assumes "tzOffsetAtMidnight rt = 0"
    and "\<And>s d. parseDate rt s = Some d \<Longrightarrow> d mod msPerDay = 0"
  shows "daysAheadOf rt dates = spec_daysAhead rt dates"
proof -
  have "maxDateOf rt dates = (localDay rt + spec_daysAhead rt dates) * msPerDay"
    using maxDateOf_whole_days [where rt = rt and b = 0 and dates = dates, OF assms(2)] assms(1)
    by (simp add: maxDateOf_def spec_daysAhead_def setHours0_def)
  then have e: "- (maxDateOf rt dates - setHours0 rt) = (- spec_daysAhead rt dates) * msPerDay"
    using assms(1) by (simp add: setHours0_def algebra_simps)
  have "(- (maxDateOf rt dates - setHours0 rt)) div msPerDay = - spec_daysAhead rt dates"
    unfolding e using msPerDay_pos by (intro nonzero_mult_div_cancel_right) simp
  then show ?thesis
    by (simp only: daysAheadOf_def add.inverse_inverse)
qed

lemma freshness_on_utc_host:
  assumes "failing st = {}" and "tzOffsetAtMidnight rt = 0"
    and "\<And>s d. parseDate rt s = Some d \<Longrightarrow> d mod msPerDay = 0"
  shows "shouldSkip (shouldSkipScraping rt st) \<longleftrightarrow>
           spec_daysAhead rt (zrange_all (daysList st)) \<ge> 14
           \<and> daysSinceUpdateOf rt (latest_update st) < 5"
proof (cases "daysList st = []")
  case True
  then show ?thesis
    using assms(1)
    by (simp add: shouldSkipScraping_def redis_zrange_def zrange_all_empty_iff
        spec_daysAhead_def zrange_all_def)
next
  case False
  from shouldSkipScraping_decision [of rt st] shouldSkipScraping_daysAhead [OF assms(1) False, of rt]
    daysAheadOf_utc [OF assms(2,3)]
  show ?thesis by simp
qed

lemma isoDateOnly_midnight: "isoDateOnly s = Some d \<Longrightarrow> d mod msPerDay = 0"
  unfolding isoDateOnly_def Let_def
  by (simp split: list.splits if_splits) force

lemma freshness_utcRuntime:
  "failing st = {} \<Longrightarrow>
     shouldSkip (shouldSkipScraping (utcRuntime t) st) \<longleftrightarrow>
       spec_daysAhead (utcRuntime t) (zrange_all (daysList st)) \<ge> 14
       \<and> daysSinceUpdateOf (utcRuntime t) (latest_update st) < 5"
  by (rule freshness_on_utc_host) (simp_all add: utcRuntime_def isoDateOnly_midnight)

text \<open>
  The boundary cases at noon UTC on 2025-01-01: a listing up to 2025-01-14 updated a day
  ago (13 days ahead, no skip), and listings up to 2025-01-15 updated a little over four
  days ago (14 days ahead, skip) and exactly five days ago (no skip).
\<close>

lemma freshness_boundaries_utc:
  "spec_daysAhead noon_jan1_2025 [''2025-01-14''] = 13
   \<and> shouldSkipScraping noon_jan1_2025
        (listingStore ''2025-01-14'' (Some (nowMs noon_jan1_2025 - msPerDay)))
      = \<lparr>shouldSkip = False, reason = ''Only 13 days ahead, last updated 1 days ago'',
         daysAhead = 13\<rparr>
   \<and> spec_daysAhead noon_jan1_2025 [''2025-01-15''] = 14
   \<and> shouldSkipScraping noon_jan1_2025
        (listingStore ''2025-01-15'' (Some (nowMs noon_jan1_2025 - 4 * msPerDay - 1000)))
      = \<lparr>shouldSkip = True, reason = ''Have 14 days of schedules, last updated 4 days ago'',
         daysAhead = 14\<rparr>
   \<and> shouldSkipScraping noon_jan1_2025
        (listingStore ''2025-01-15'' (Some (nowMs noon_jan1_2025 - 5 * msPerDay)))
      = \<lparr>shouldSkip = False, reason = ''Only 14 days ahead, last updated 5 days ago'',
         daysAhead = 14\<rparr>"
  by code_simp

subsection \<open>On a host east of UTC\<close>

text \<open>
  Claim C1 does not hold of the code. The function measures from local midnight to the UTC
  midnight of the latest listed date and rounds up, so east of UTC the part of a day between
  the two counts as a day. At noon on 2025-01-01 one hour east of UTC (2025-01-01 in UTC
  as well), with 2025-01-14 the only listed date (13 days ahead) and an update one day old,
  it reports 14 days ahead and skips.
\<close>

theorem freshness_skips_at_13_days_east_of_utc:
  "localDateKey cet_noon_jan1_2025 = ''2025-01-01''
   \<and> utcDateKey (nowMs cet_noon_jan1_2025) = ''2025-01-01''
   \<and> zrange_all (daysList (listingStore ''2025-01-14''
          (Some (nowMs cet_noon_jan1_2025 - msPerDay)))) = [''2025-01-14'']
   \<and> spec_daysAhead cet_noon_jan1_2025 [''2025-01-14''] = 13
   \<and> daysSinceUpdateOf cet_noon_jan1_2025 (Some (nowMs cet_noon_jan1_2025 - msPerDay)) = 1
   \<and> shouldSkipScraping cet_noon_jan1_2025
        (listingStore ''2025-01-14'' (Some (nowMs cet_noon_jan1_2025 - msPerDay)))
      = \<lparr>shouldSkip = True, reason = ''Have 14 days of schedules, last updated 1 days ago'',
         daysAhead = 14\<rparr>"
  by code_simp

subsection \<open>Failing reads\<close>

text \<open>
  Claim C8. When a storage read of \<^verbatim>\<open>shouldSkipScraping\<close> fails (the listing of the
  dates, or the read of the update marker), the result is not to skip: whenever one of the
  two read commands is failing the result has \<open>shouldSkip = False\<close>, and whenever a read
  the function performs fails the result is the error result, which does not skip.
\<close>

theorem freshness_read_failure:
  "(ZRANGE \<in> failing st \<or> GET \<in> failing st \<longrightarrow> \<not> shouldSkip (shouldSkipScraping rt st))
   \<and> (ZRANGE \<in> failing st \<or> (daysList st \<noteq> [] \<and> GET \<in> failing st)
        \<longrightarrow> shouldSkipScraping rt st = errorSkipCheck)
   \<and> \<not> shouldSkip errorSkipCheck"
  by (auto simp: shouldSkipScraping_def redis_zrange_def redis_get_latest_update_def
      errorSkipCheck_def Let_def zrange_all_empty_iff)

lemma example_failing_get:
  "GET \<in> failing ((listingStore ''2025-01-15''
       (Some (nowMs noon_jan1_2025 - 4 * msPerDay - 1000)))\<lparr>failing := {GET}\<rparr>)"
  by (simp add: listingStore_def)

text \<open>
  A store on which the evaluator skips, and the same store with a failing \<^verbatim>\<open>GET\<close>, on
  which it does not.
\<close>

theorem freshness_read_failure_witness:
  "shouldSkip (shouldSkipScraping noon_jan1_2025
       (listingStore ''2025-01-15'' (Some (nowMs noon_jan1_2025 - 4 * msPerDay - 1000))))
   \<and> \<not> shouldSkip (shouldSkipScraping noon_jan1_2025
       ((listingStore ''2025-01-15''
           (Some (nowMs noon_jan1_2025 - 4 * msPerDay - 1000)))\<lparr>failing := {GET}\<rparr>))"
proof -
  have "shouldSkip (shouldSkipScraping noon_jan1_2025
       (listingStore ''2025-01-15'' (Some (nowMs noon_jan1_2025 - 4 * msPerDay - 1000))))"
    by code_simp
  moreover have "\<not> shouldSkip (shouldSkipScraping noon_jan1_2025
       ((listingStore ''2025-01-15''
           (Some (nowMs noon_jan1_2025 - 4 * msPerDay - 1000)))\<lparr>failing := {GET}\<rparr>))"
    using freshness_read_failure [of "(listingStore ''2025-01-15''
           (Some (nowMs noon_jan1_2025 - 4 * msPerDay - 1000)))\<lparr>failing := {GET}\<rparr>" noon_jan1_2025]
      example_failing_get by blast
  ultimately show ?thesis by blast
qed

section \<open>Query Facade\<close>

lemma cet_keys:
  "localDateKey cet_after_midnight = ''2025-01-02''"
  "utcDateKey (nowMs cet_after_midnight) = ''2025-01-01''"
  by code_simp+

lemma cet_today:
  "getTodaySchedule cet_after_midnight twoDayStore
     = Some (parsedDay ''01.01'' ''Sroda'' [speedSession])"
  by code_simp

text \<open>
  Claim C10. \<^verbatim>\<open>getTodaySchedule\<close> looks up the key of the UTC calendar date of the
  current instant, whatever the local time zone. At 00:30 local time on 2025-01-02 one hour
  east of UTC the UTC date is still 2025-01-01, and the record returned is the one stored
  under 2025-01-01, not the one under 2025-01-02.
\<close>

theorem today_uses_utc_date:
  "getTodaySchedule rt st = getDayScheduleByISO (utcDateKey (nowMs rt)) st
   \<and> getTodaySchedule (rt\<lparr>tzOffsetMs := z\<rparr>) st = getTodaySchedule rt st
   \<and> localDateKey cet_after_midnight = ''2025-01-02''
   \<and> utcDateKey (nowMs cet_after_midnight) = ''2025-01-01''
   \<and> getTodaySchedule cet_after_midnight twoDayStore = dayRecs twoDayStore ''2025-01-01''
   \<and> dayRecs twoDayStore ''2025-01-01'' \<noteq> dayRecs twoDayStore ''2025-01-02''"
proof -
  have "dayRecs twoDayStore ''2025-01-01'' = Some (parsedDay ''01.01'' ''Sroda'' [speedSession])"
    by (simp add: twoDayStore_def)
  moreover have "dayRecs twoDayStore ''2025-01-02'' = Some (parsedDay ''02.01'' ''Czwartek'' [athleticSession])"
    by (simp add: twoDayStore_def)
  moreover have "parsedDay ''01.01'' ''Sroda'' [speedSession] \<noteq> parsedDay ''02.01'' ''Czwartek'' [athleticSession]"
    by (simp add: parsedDay_def)
  ultimately show ?thesis
    using cet_keys cet_today by (simp add: getTodaySchedule_def isoDatePart_utc)
qed

text \<open>The lookup at that instant, against the lookup under the local date.\<close>

theorem today_uses_utc_date_witness:
  "getTodaySchedule cet_after_midnight twoDayStore
     = getDayScheduleByISO ''2025-01-01'' twoDayStore
   \<and> getDayScheduleByISO ''2025-01-01'' twoDayStore \<noteq> getDayScheduleByISO (localDateKey cet_after_midnight) twoDayStore"
proof -
  have "getDayScheduleByISO ''2025-01-01'' twoDayStore \<noteq> getDayScheduleByISO ''2025-01-02'' twoDayStore"
    by (simp add: getDayScheduleByISO_def redis_get_day_def twoDayStore_def emptyStore_def parsedDay_def)
  then show ?thesis
    using today_uses_utc_date [of cet_after_midnight twoDayStore 0] by (simp add: cet_keys)
qed

section \<open>Schedule Store\<close>

subsection \<open>Commands on a healthy store\<close>

lemma healthy_commands:
  assumes "failing st = {}"
  shows "redis_set_day k v st = Inr (st\<lparr>dayRecs := (dayRecs st)(k \<mapsto> v)\<rparr>)"
    and "redis_zadd sc m st = Inr (st\<lparr>daysList := zadd sc m (daysList st)\<rparr>)"
    and "redis_set_week w meta st = Inr (st\<lparr>weekRecs := (weekRecs st)(w \<mapsto> meta)\<rparr>)"
    and "redis_set_latest_update t st = Inr (st\<lparr>latest_update := Some t\<rparr>)"
    and "weekScheduleExists w st \<longleftrightarrow> weekRecs st w \<noteq> None"
  using assms
  by (auto simp: redis_set_day_def redis_zadd_def redis_set_week_def redis_set_latest_update_def
      weekScheduleExists_def redis_exists_week_def split: option.splits)

lemma convertToISODate_dotted:
  "CHR ''.'' \<in> set d \<Longrightarrow> \<exists>k. convertToISODate rt d = Inr k"
  using convertToISODate_fails_iff [of rt d] by (cases "convertToISODate rt d") auto

lemma convertToISODate_undotted:
  "CHR ''.'' \<notin> set d \<Longrightarrow> convertToISODate rt d = Inl TypeError"
  by (simp add: convertToISODate_def split_on_no_sep)

subsection \<open>The day loop\<close>

lemma storeDays_frame:
  "storeDays rt w ds n st = (r, st') \<Longrightarrow>
     failing st' = failing st \<and> weekRecs st' = weekRecs st
     \<and> latest_update st' = latest_update st \<and> scrapingLogs st' = scrapingLogs st"
proof (induction ds arbitrary: n st)
  case Nil
  then show ?case by simp
next
  case (Cons d ds)
  show ?case
  proof (cases "convertToISODate rt (date d)")
    case (Inl e)
    with Cons.prems show ?thesis by simp
  next
    case (Inr k)
    show ?thesis
    proof (cases "SET \<in> failing st")
      case True
      with Inr Cons.prems show ?thesis by (simp add: redis_set_day_def)
    next
      case False
      let ?st1 = "st\<lparr>dayRecs := (dayRecs st)(k \<mapsto> stampDay w k d)\<rparr>"
      show ?thesis
      proof (cases "ZADD \<in> failing st")
        case True
        with Inr False Cons.prems show ?thesis
          by (auto simp: redis_set_day_def redis_zadd_def)
      next
        case zadd_ok: False
        let ?st2 = "?st1\<lparr>daysList := zadd (nowMs rt) k (daysList ?st1)\<rparr>"
        from Inr False zadd_ok Cons.prems
        have "storeDays rt w ds (Suc n) ?st2 = (r, st')"
          by (simp add: redis_set_day_def redis_zadd_def)
        from Cons.IH [OF this] show ?thesis by simp
      qed
    qed
  qed
qed

lemma storeDays_all_dated:
  assumes "failing st = {}" "list_all (\<lambda>day. CHR ''.'' \<in> set (date day)) ds"
  shows "fst (storeDays rt w ds n st) = Inr (n + length ds)
     \<and> (\<forall>k. dayRecs (snd (storeDays rt w ds n st)) k =
           (case lastDayFor rt k ds of
              Some day \<Rightarrow> Some (stampDay w k day)
            | None \<Rightarrow> dayRecs st k))"
  using assms
proof (induction ds arbitrary: n st)
  case Nil
  then show ?case by simp
next
  case (Cons d ds)
  from Cons.prems obtain k0 where k0: "convertToISODate rt (date d) = Inr k0"
    using convertToISODate_dotted by fastforce
  let ?st2 = "st\<lparr>dayRecs := (dayRecs st)(k0 \<mapsto> stampDay w k0 d),
                  daysList := zadd (nowMs rt) k0 (daysList st)\<rparr>"
  have step: "storeDays rt w (d # ds) n st = storeDays rt w ds (Suc n) ?st2"
    using Cons.prems(1) k0 by (simp add: healthy_commands)
  have "failing ?st2 = {}" using Cons.prems(1) by simp
  moreover have "list_all (\<lambda>day. CHR ''.'' \<in> set (date day)) ds" using Cons.prems(2) by simp
  ultimately have IH: "fst (storeDays rt w ds (Suc n) ?st2) = Inr (Suc n + length ds)
     \<and> (\<forall>k. dayRecs (snd (storeDays rt w ds (Suc n) ?st2)) k =
           (case lastDayFor rt k ds of
              Some day \<Rightarrow> Some (stampDay w k day)
            | None \<Rightarrow> dayRecs ?st2 k))"
    by (rule Cons.IH)
  show ?case
    unfolding step using IH k0 by (auto split: option.splits)
qed

lemma storeDays_undated:
  assumes "failing st = {}" "\<not> list_all (\<lambda>day. CHR ''.'' \<in> set (date day)) ds"
  shows "fst (storeDays rt w ds n st) = Inl TypeError"
  using assms
proof (induction ds arbitrary: n st)
  case Nil
  then show ?case by simp
next
  case (Cons d ds)
  show ?case
  proof (cases "CHR ''.'' \<in> set (date d)")
    case False
    then show ?thesis by (simp add: convertToISODate_undotted)
  next
    case True
    then obtain k0 where k0: "convertToISODate rt (date d) = Inr k0"
      using convertToISODate_dotted by blast
    let ?st2 = "st\<lparr>dayRecs := (dayRecs st)(k0 \<mapsto> stampDay w k0 d),
                  daysList := zadd (nowMs rt) k0 (daysList st)\<rparr>"
    have step: "storeDays rt w (d # ds) n st = storeDays rt w ds (Suc n) ?st2"
      using Cons.prems(1) k0 by (simp add: healthy_commands)
    have "failing ?st2 = {}" using Cons.prems(1) by simp
    moreover have "\<not> list_all (\<lambda>day. CHR ''.'' \<in> set (date day)) ds"
      using Cons.prems(2) True by simp
    ultimately show ?thesis unfolding step by (rule Cons.IH)
  qed
qed

lemma lastDayFor_Some:
  "lastDayFor rt k ds = Some day \<Longrightarrow> day \<in> set ds \<and> convertToISODate rt (date day) = Inr k"
  by (induction ds) (auto split: option.splits if_splits)

lemma lastDayFor_exists:
  "day \<in> set ds \<Longrightarrow> convertToISODate rt (date day) = Inr k \<Longrightarrow> \<exists>later. lastDayFor rt k ds = Some later"
  by (induction ds) (auto split: option.splits)

subsection \<open>\<^verbatim>\<open>storeWeekSchedule\<close> on a healthy store\<close>

lemma storeWeekSchedule_dated:
  assumes "failing st = {}" "datesHaveMonth s"
  shows "fst (storeWeekSchedule rt s st) = length (days s)"
    and "failing (snd (storeWeekSchedule rt s st)) = {}"
    and "weekRecs (snd (storeWeekSchedule rt s st)) (week s) \<noteq> None"
    and "weekRecs st x \<noteq> None \<Longrightarrow> weekRecs (snd (storeWeekSchedule rt s st)) x \<noteq> None"
    and "dayRecs (snd (storeWeekSchedule rt s st)) k =
           (case lastDayFor rt k (days s) of
              Some day \<Rightarrow> Some (stampDay s k day)
            | None \<Rightarrow> dayRecs st k)"
proof -
  obtain st1 where sd: "storeDays rt s (days s) 0 st = (Inr (length (days s)), st1)"
    using storeDays_all_dated [OF assms(1), of "days s" rt s 0] assms(2)
    by (cases "storeDays rt s (days s) 0 st") (auto simp: datesHaveMonth_def)
  have fr: "failing st1 = {}" "weekRecs st1 = weekRecs st"
    using storeDays_frame [OF sd] assms(1) by auto
  have dr: "dayRecs st1 k =
           (case lastDayFor rt k (days s) of
              Some day \<Rightarrow> Some (stampDay s k day)
            | None \<Rightarrow> dayRecs st k)"
    using storeDays_all_dated [OF assms(1), of "days s" rt s 0] assms(2) sd
    by (auto simp: datesHaveMonth_def)
  let ?meta = "\<lparr>metaWeek = week s, metaSourceUrl = sourceUrl s,
                    metaScrapedAt = scrapedAt s, dayCount = length (days s)\<rparr>"
  have res: "storeWeekSchedule rt s st =
      (length (days s), st1\<lparr>weekRecs := (weekRecs st1)(week s \<mapsto> ?meta), latest_update := Some (nowMs rt)\<rparr>)"
    using sd fr(1) by (simp add: storeWeekSchedule_def healthy_commands)
  show "fst (storeWeekSchedule rt s st) = length (days s)" by (simp add: res)
  show "failing (snd (storeWeekSchedule rt s st)) = {}" by (simp add: res fr)
  show "weekRecs (snd (storeWeekSchedule rt s st)) (week s) \<noteq> None" by (simp add: res)
  show "weekRecs st x \<noteq> None \<Longrightarrow> weekRecs (snd (storeWeekSchedule rt s st)) x \<noteq> None"
    by (simp add: res fr)
  show "dayRecs (snd (storeWeekSchedule rt s st)) k =
           (case lastDayFor rt k (days s) of
              Some day \<Rightarrow> Some (stampDay s k day)
            | None \<Rightarrow> dayRecs st k)"
    using dr by (simp add: res)
qed

lemma storeWeekSchedule_undated:
  assumes "failing st = {}" "\<not> datesHaveMonth s"
  shows "fst (storeWeekSchedule rt s st) = 0"
    and "failing (snd (storeWeekSchedule rt s st)) = {}"
    and "weekRecs (snd (storeWeekSchedule rt s st)) = weekRecs st"
proof -
  obtain st1 where sd: "storeDays rt s (days s) 0 st = (Inl TypeError, st1)"
    using storeDays_undated [OF assms(1), of "days s" rt s 0] assms(2)
    by (cases "storeDays rt s (days s) 0 st") (auto simp: datesHaveMonth_def)
  have fr: "failing st1 = {}" "weekRecs st1 = weekRecs st"
    using storeDays_frame [OF sd] assms(1) by auto
  have res: "storeWeekSchedule rt s st = (0, st1)"
    using sd by (simp add: storeWeekSchedule_def)
  show "fst (storeWeekSchedule rt s st) = 0" by (simp add: res)
  show "failing (snd (storeWeekSchedule rt s st)) = {}" by (simp add: res fr)
  show "weekRecs (snd (storeWeekSchedule rt s st)) = weekRecs st" by (simp add: res fr)
qed

section \<open>Ingestion Pipeline\<close>

subsection \<open>One submission\<close>

lemma processSchedule_recorded:
  assumes "failing st = {}" "weekRecs st (week s) \<noteq> None"
  shows "processSchedule env k s (t, st) = (t\<lparr>skippedSchedules := skippedSchedules t @ [week s]\<rparr>, st)"
  using assms by (simp add: processSchedule_def healthy_commands)

lemma processSchedule_dated:
  assumes "failing st = {}" "weekRecs st (week s) = None" "datesHaveMonth s"
  shows "snd (processSchedule env k s (t, st)) = snd (storeWeekSchedule (rtAt env (AtStore k)) s st)"
    and "days s \<noteq> [] \<Longrightarrow> fst (processSchedule env k s (t, st)) =
           t\<lparr>storedSchedules := storedSchedules t @ [week s],
              totalDaysStored := totalDaysStored t + length (days s)\<rparr>"
  using assms storeWeekSchedule_dated(1) [where rt = "rtAt env (AtStore k)", OF assms(1,3)]
  by (auto simp: processSchedule_def healthy_commands split: prod.splits)

lemma processSchedule_undated:
  assumes "failing st = {}" "weekRecs st (week s) = None" "\<not> datesHaveMonth s"
  shows "snd (processSchedule env k s (t, st)) = snd (storeWeekSchedule (rtAt env (AtStore k)) s st)"
    and "storedSchedules (fst (processSchedule env k s (t, st))) = storedSchedules t"
  using assms storeWeekSchedule_undated(1) [where rt = "rtAt env (AtStore k)", OF assms(1,3)]
  by (auto simp: processSchedule_def healthy_commands split: prod.splits)

lemma processSchedule_invariants:
  assumes "failing st = {}"
  shows "failing (snd (processSchedule env k s (t, st))) = {}"
    and "weekRecs st x \<noteq> None \<Longrightarrow> weekRecs (snd (processSchedule env k s (t, st))) x \<noteq> None"
    and "weekRecs (snd (processSchedule env k s (t, st))) (week s) \<noteq> None \<or> \<not> datesHaveMonth s"
proof -
  consider (rec) "weekRecs st (week s) \<noteq> None"
    | (dated) "weekRecs st (week s) = None" "datesHaveMonth s"
    | (undated) "weekRecs st (week s) = None" "\<not> datesHaveMonth s"
    by blast
  then have "failing (snd (processSchedule env k s (t, st))) = {}
    \<and> (weekRecs st x \<noteq> None \<longrightarrow> weekRecs (snd (processSchedule env k s (t, st))) x \<noteq> None)
    \<and> (weekRecs (snd (processSchedule env k s (t, st))) (week s) \<noteq> None \<or> \<not> datesHaveMonth s)"
  proof cases
    case rec
    then show ?thesis using assms by (simp add: processSchedule_recorded)
  next
    case dated
    then show ?thesis
      using assms storeWeekSchedule_dated(2,3,4) [where rt = "rtAt env (AtStore k)", OF assms dated(2)]
      by (simp add: processSchedule_dated(1))
  next
    case undated
    then show ?thesis
      using assms storeWeekSchedule_undated(2,3) [where rt = "rtAt env (AtStore k)", OF assms undated(2)]
      by (simp add: processSchedule_undated(1))
  qed
  then show "failing (snd (processSchedule env k s (t, st))) = {}"
    and "weekRecs st x \<noteq> None \<Longrightarrow> weekRecs (snd (processSchedule env k s (t, st))) x \<noteq> None"
    and "weekRecs (snd (processSchedule env k s (t, st))) (week s) \<noteq> None \<or> \<not> datesHaveMonth s"
    by blast+
qed

lemma storeWeekSchedule_count:
  assumes "failing st = {}"
  shows "0 < fst (storeWeekSchedule rt s st) \<longleftrightarrow> datesHaveMonth s \<and> days s \<noteq> []"
proof (cases "datesHaveMonth s")
  case True
  then show ?thesis using storeWeekSchedule_dated(1) [OF assms True, of rt] by simp
next
  case False
  then show ?thesis using storeWeekSchedule_undated(1) [OF assms False, of rt] by simp
qed

lemma processSchedule_unrecorded:
  assumes "failing st = {}" "weekRecs st (week s) = None"
  shows "processSchedule env k s (t, st) =
     (if datesHaveMonth s \<and> days s \<noteq> []
      then (t\<lparr>storedSchedules := storedSchedules t @ [week s],
              totalDaysStored := totalDaysStored t + length (days s)\<rparr>,
            snd (storeWeekSchedule (rtAt env (AtStore k)) s st))
      else (t\<lparr>loopErrors := loopErrors t @ [''Failed to store schedule for week '' @ week s]\<rparr>,
            snd (storeWeekSchedule (rtAt env (AtStore k)) s st)))"
proof (cases "datesHaveMonth s \<and> days s \<noteq> []")
  case True
  then show ?thesis
    using assms storeWeekSchedule_dated(1) [where rt = "rtAt env (AtStore k)" and s = s, OF assms(1)]
    by (auto simp: processSchedule_def healthy_commands split: prod.splits)
next
  case False
  then have "fst (storeWeekSchedule (rtAt env (AtStore k)) s st) = 0"
    using storeWeekSchedule_count [OF assms(1), of "rtAt env (AtStore k)" s] by auto
  with False show ?thesis
    using assms by (auto simp: processSchedule_def healthy_commands split: prod.splits)
qed

lemma processSchedule_errors:
  assumes "failing st = {}"
  shows "length (loopErrors t) \<le> length (loopErrors (fst (processSchedule env k s (t, st))))
     \<and> (length (loopErrors (fst (processSchedule env k s (t, st)))) = length (loopErrors t)
          \<longrightarrow> weekRecs (snd (processSchedule env k s (t, st))) (week s) \<noteq> None)"
proof (cases "weekRecs st (week s) = None")
  case False
  then show ?thesis using processSchedule_recorded [OF assms, of s env k t] by simp
next
  case True
  show ?thesis
  proof (cases "datesHaveMonth s \<and> days s \<noteq> []")
    case dated: True
    then show ?thesis
      using processSchedule_unrecorded [OF assms True, of env k t]
        storeWeekSchedule_dated(3) [OF assms, of s "rtAt env (AtStore k)"]
      by simp
  next
    case False
    then show ?thesis
      using processSchedule_unrecorded [OF assms True, of env k t] by auto
  qed
qed

subsection \<open>The loop over the submissions\<close>

lemma storeLoop_invariants:
  assumes "failing st = {}"
  shows "failing (snd (storeLoop env k ws (t, st))) = {}
     \<and> (\<forall>x. weekRecs st x \<noteq> None \<longrightarrow> weekRecs (snd (storeLoop env k ws (t, st))) x \<noteq> None)
     \<and> (\<forall>s \<in> set ws. weekRecs (snd (storeLoop env k ws (t, st))) (week s) \<noteq> None
                        \<or> \<not> datesHaveMonth s)"
  using assms
proof (induction ws arbitrary: k t st)
  case Nil
  then show ?case by simp
next
  case (Cons s ws)
  obtain t1 st1 where p: "processSchedule env k s (t, st) = (t1, st1)"
    by (cases "processSchedule env k s (t, st)")
  have inv: "failing st1 = {}"
      "\<And>x. weekRecs st x \<noteq> None \<Longrightarrow> weekRecs st1 x \<noteq> None"
      "weekRecs st1 (week s) \<noteq> None \<or> \<not> datesHaveMonth s"
    using processSchedule_invariants [where env = env and k = k and s = s and t = t, OF Cons.prems] p by auto
  from Cons.IH [OF inv(1), of "Suc k" t1] inv(2,3) show ?case
    by (auto simp: p)
qed

lemma storeLoop_nothing_stored:
  assumes "failing st = {}"
    and "\<forall>s \<in> set ws. weekRecs st (week s) \<noteq> None \<or> \<not> datesHaveMonth s"
  shows "storedSchedules (fst (storeLoop env k ws (t, st))) = storedSchedules t"
  using assms
proof (induction ws arbitrary: k t st)
  case Nil
  then show ?case by simp
next
  case (Cons s ws)
  obtain t1 st1 where p: "processSchedule env k s (t, st) = (t1, st1)"
    by (cases "processSchedule env k s (t, st)")
  have inv: "failing st1 = {}"
      "\<And>x. weekRecs st x \<noteq> None \<Longrightarrow> weekRecs st1 x \<noteq> None"
    using processSchedule_invariants [where env = env and k = k and s = s and t = t, OF Cons.prems(1)] p by auto
  have t1: "storedSchedules t1 = storedSchedules t"
  proof (cases "weekRecs st (week s) \<noteq> None")
    case True
    then show ?thesis using processSchedule_recorded [where env = env and k = k and t = t, OF Cons.prems(1) True] p by simp
  next
    case False
    with Cons.prems(2) have "\<not> datesHaveMonth s" by simp
    with False show ?thesis
      using processSchedule_undated(2) [where env = env and k = k and t = t and s = s, OF Cons.prems(1)] p by simp
  qed
  have "\<forall>s \<in> set ws. weekRecs st1 (week s) \<noteq> None \<or> \<not> datesHaveMonth s"
    using Cons.prems(2) inv(2) by auto
  from Cons.IH [OF inv(1) this, of "Suc k" t1] t1 show ?case by (simp add: p)
qed

lemma storeLoop_all_recorded:
  assumes "failing st = {}" "\<forall>s \<in> set ws. weekRecs st (week s) \<noteq> None"
  shows "snd (storeLoop env k ws (t, st)) = st"
  using assms
proof (induction ws arbitrary: k t)
  case Nil
  then show ?case by simp
next
  case (Cons s ws)
  then show ?case by (simp add: processSchedule_recorded)
qed

lemma storeLoop_errors:
  assumes "failing st = {}"
  shows "length (loopErrors t) \<le> length (loopErrors (fst (storeLoop env k ws (t, st))))
     \<and> (length (loopErrors (fst (storeLoop env k ws (t, st)))) = length (loopErrors t)
          \<longrightarrow> (\<forall>s \<in> set ws. weekRecs (snd (storeLoop env k ws (t, st))) (week s) \<noteq> None))"
  using assms
proof (induction ws arbitrary: k t st)
  case Nil
  then show ?case by simp
next
  case (Cons s ws)
  obtain t1 st1 where p: "processSchedule env k s (t, st) = (t1, st1)"
    by (cases "processSchedule env k s (t, st)")
  have h1: "failing st1 = {}"
    using processSchedule_invariants(1) [where env = env and k = k and s = s and t = t, OF Cons.prems] p
    by simp
  have e1: "length (loopErrors t) \<le> length (loopErrors t1)"
      "length (loopErrors t1) = length (loopErrors t) \<longrightarrow> weekRecs st1 (week s) \<noteq> None"
    using processSchedule_errors [OF Cons.prems, of t env k s] p by simp_all
  have keep: "\<forall>x. weekRecs st1 x \<noteq> None \<longrightarrow> weekRecs (snd (storeLoop env (Suc k) ws (t1, st1))) x \<noteq> None"
    using storeLoop_invariants [OF h1, of env "Suc k" ws t1] by simp
  from Cons.IH [OF h1, of t1 "Suc k"] e1 keep show ?case
    by (auto simp: p)
qed

subsection \<open>Parsing the same documents again\<close>

lemma parseLoop_same_objects:
  assumes "generateObject env2 = generateObject env1"
  shows "map (\<lambda>s. (week s, days s)) (fst (parseLoop env2 k2 posts))
       = map (\<lambda>s. (week s, days s)) (fst (parseLoop env1 k1 posts))"
proof (induction posts arbitrary: k1 k2)
  case Nil
  then show ?case by simp
next
  case (Cons p posts)
  from Cons.IH [of "Suc k2" "Suc k1"] assms show ?case
    by (auto simp: parseScheduleWithLLM_def split: prod.splits sum.splits option.splits)
qed

lemma same_weeks_and_days:
  assumes "map (\<lambda>s. (week s, days s)) ws2 = map (\<lambda>s. (week s, days s)) ws1"
    and "\<forall>s \<in> set ws1. P (week s) (days s)"
  shows "\<forall>s \<in> set ws2. P (week s) (days s)"
proof
  fix s assume "s \<in> set ws2"
  then have "(week s, days s) \<in> set (map (\<lambda>s. (week s, days s)) ws1)"
    using assms(1) by (metis (mono_tags, lifting) image_eqI list.set_map)
  then show "P (week s) (days s)" using assms(2) by auto
qed

subsection \<open>The handler\<close>

lemma logScrapingOperation_frame:
  "dayRecs (logScrapingOperation rt e st) = dayRecs st"
  "daysList (logScrapingOperation rt e st) = daysList st"
  "weekRecs (logScrapingOperation rt e st) = weekRecs st"
  "latest_update (logScrapingOperation rt e st) = latest_update st"
  "failing (logScrapingOperation rt e st) = failing st"
  by (simp_all add: logScrapingOperation_def redis_set_log_def)

lemma POST_skipped:
  assumes "authorized env" "shouldSkip (shouldSkipScraping (rtAt env AtSkipCheck) st)"
  shows "POST env st =
      (Skipped200 \<lparr>success = True, schedulesProcessed = 0, errors = [], urls = [],
                   timestamp = toISOString (clockAt env AtReport)\<rparr>
         (reason (shouldSkipScraping (rtAt env AtSkipCheck) st))
         (daysAhead (shouldSkipScraping (rtAt env AtSkipCheck) st)),
       logScrapingOperation (rtAt env AtLog)
         (\<lparr>success = True, schedulesProcessed = 0, errors = [], urls = [],
           timestamp = toISOString (clockAt env AtReport)\<rparr>,
          Some (reason (shouldSkipScraping (rtAt env AtSkipCheck) st),
                daysAhead (shouldSkipScraping (rtAt env AtSkipCheck) st))) st)"
  using assms by (simp add: POST_def Let_def)

lemma POST_no_posts:
  assumes "authorized env" "\<not> shouldSkip (shouldSkipScraping (rtAt env AtSkipCheck) st)"
    "scrapeAllBlogPosts env = Inr []"
  shows "POST env st =
      (NoPosts200 \<lparr>success = False, schedulesProcessed = 0, errors = [''No blog posts found''],
                   urls = [], timestamp = toISOString (clockAt env AtReport)\<rparr>,
       logScrapingOperation (rtAt env AtLog)
         (\<lparr>success = False, schedulesProcessed = 0, errors = [''No blog posts found''],
           urls = [], timestamp = toISOString (clockAt env AtReport)\<rparr>, None) st)"
  using assms by (simp add: POST_def Let_def)

lemma POST_completed:
  assumes "authorized env" "\<not> shouldSkip (shouldSkipScraping (rtAt env AtSkipCheck) st)"
    "scrapeAllBlogPosts env = Inr posts" "posts \<noteq> []"
    "storeLoop env 0 (parseAllSchedules env posts) (emptyTally, st) = (t, st1)"
  shows "POST env st =
      (Completed200 \<lparr>success = (loopErrors t = []), schedulesProcessed = length (storedSchedules t),
                     errors = loopErrors t, urls = map url posts,
                     timestamp = toISOString (clockAt env AtReport)\<rparr>
         (storedSchedules t) (skippedSchedules t) (totalDaysStored t),
       logScrapingOperation (rtAt env AtLog)
         (\<lparr>success = (loopErrors t = []), schedulesProcessed = length (storedSchedules t),
           errors = loopErrors t, urls = map url posts,
           timestamp = toISOString (clockAt env AtReport)\<rparr>, None) st1)"
  using assms by (simp add: POST_def Let_def)

subsection \<open>No posts found\<close>

text \<open>
  Claim C7, as the code has it. When the category page yields no candidate document, the
  run does not abort: the handler answers with status 200 and a report with
  \<open>schedulesProcessed = 0\<close> and the note \<^verbatim>\<open>No blog posts found\<close> as its only entry in
  \<open>errors\<close>; the report's \<open>success\<close> is \<open>False\<close>. Nothing but the log entry is
  written: the store afterwards is the store before with the report logged under the UTC
  date of the run, and the store before when the write of the log entry fails.
\<close>

theorem no_posts_found_report:
  assumes "authorized env"
    and "\<not> shouldSkip (shouldSkipScraping (rtAt env AtSkipCheck) st)"
    and "scrapeCategoryPage env = Inr []"
  shows "fst (POST env st) =
           NoPosts200 \<lparr>success = False, schedulesProcessed = 0,
                        errors = [''No blog posts found''], urls = [],
                        timestamp = toISOString (clockAt env AtReport)\<rparr>
       \<and> statusOf (fst (POST env st)) = 200
       \<and> snd (POST env st) =
           (if SET \<in> failing st then st
            else st\<lparr>scrapingLogs := (scrapingLogs st)
                   (utcDateKey (clockAt env AtLog) \<mapsto>
                      (\<lparr>success = False, schedulesProcessed = 0,
                         errors = [''No blog posts found''], urls = [],
                         timestamp = toISOString (clockAt env AtReport)\<rparr>, None))\<rparr>)"
proof -
  have "scrapeAllBlogPosts env = Inr []"
    using assms(3) by (simp add: scrapeAllBlogPosts_def)
  from POST_no_posts [OF assms(1,2) this] show ?thesis
    by (simp add: logScrapingOperation_def redis_set_log_def isoDatePart_utc rtAt_def)
qed

lemma noPosts_facts:
  "authorized envNoPosts"
  "\<not> shouldSkip (shouldSkipScraping (rtAt envNoPosts AtSkipCheck) emptyStore)"
  "scrapeCategoryPage envNoPosts = Inr []"
  by code_simp+

lemma noPosts_log:
  "SET \<notin> failing emptyStore"
  "utcDateKey (clockAt envNoPosts AtLog) = ''2025-01-06''"
  "toISOString (clockAt envNoPosts AtReport) = ''2025-01-06T08:00:09.000Z''"
  by code_simp+

text \<open>A category page whose only link is a category link.\<close>

theorem no_posts_found_report_witness:
  "authorized envNoPosts
   \<and> \<not> shouldSkip (shouldSkipScraping (rtAt envNoPosts AtSkipCheck) emptyStore)
   \<and> scrapeCategoryPage envNoPosts = Inr []
   \<and> statusOf (fst (POST envNoPosts emptyStore)) = 200
   \<and> fst (POST envNoPosts emptyStore) =
        NoPosts200 \<lparr>success = False, schedulesProcessed = 0,
                     errors = [''No blog posts found''], urls = [],
                     timestamp = ''2025-01-06T08:00:09.000Z''\<rparr>
   \<and> snd (POST envNoPosts emptyStore) =
        emptyStore\<lparr>scrapingLogs := (scrapingLogs emptyStore)
          (''2025-01-06'' \<mapsto>
             (\<lparr>success = False, schedulesProcessed = 0,
                errors = [''No blog posts found''], urls = [],
                timestamp = ''2025-01-06T08:00:09.000Z''\<rparr>, None))\<rparr>"
  using no_posts_found_report [OF noPosts_facts] noPosts_facts noPosts_log
  by (simp only: if_False simp_thms statusOf.simps)

text \<open>Claim C7, as stated, fails: the report of that run has \<open>success = False\<close>.\<close>

theorem no_posts_is_success_counterexample:
  "scrapeCategoryPage envNoPosts = Inr []
   \<and> map_option success (reportOf (fst (POST envNoPosts emptyStore))) = Some False
   \<and> map_option errors (reportOf (fst (POST envNoPosts emptyStore))) = Some [''No blog posts found'']"
  by code_simp

subsection \<open>A later submission for a stored day\<close>

text \<open>
  Claim C6, as the code has it. On a healthy store, a submission whose week identifier is
  already recorded leaves the store unchanged. A submission whose week identifier is not
  recorded, and whose dates all have a month part, replaces the record at every key \<open>K\<close>
  one of its days normalizes to: afterwards the record at \<open>K\<close> is a day of this
  submission, stamped with its source and time, whatever was stored at \<open>K\<close> before. The
  last write wins; duplicates are detected by week identifier only.
\<close>

theorem later_submission_replaces_day:
  assumes "failing st = {}"
  shows "(weekRecs st (week s) \<noteq> None \<longrightarrow> snd (processSchedule env k s (t, st)) = st)
       \<and> (weekRecs st (week s) = None \<and> datesHaveMonth s \<and> day \<in> set (days s)
            \<and> convertToISODate (rtAt env (AtStore k)) (date day) = Inr K
          \<longrightarrow> (\<exists>later \<in> set (days s).
                 convertToISODate (rtAt env (AtStore k)) (date later) = Inr K
                 \<and> dayRecs (snd (processSchedule env k s (t, st))) K = Some (stampDay s K later)))"
proof (intro conjI impI)
  assume "weekRecs st (week s) \<noteq> None"
  then show "snd (processSchedule env k s (t, st)) = st"
    using assms by (simp add: processSchedule_recorded)
next
  assume a: "weekRecs st (week s) = None \<and> datesHaveMonth s \<and> day \<in> set (days s)
            \<and> convertToISODate (rtAt env (AtStore k)) (date day) = Inr K"
  then obtain later where l: "lastDayFor (rtAt env (AtStore k)) K (days s) = Some later"
    using lastDayFor_exists by blast
  have "dayRecs (snd (processSchedule env k s (t, st))) K = Some (stampDay s K later)"
    using a l assms
    by (simp add: processSchedule_dated(1) storeWeekSchedule_dated(5))
  with lastDayFor_Some [OF l]
  show "\<exists>later \<in> set (days s).
                 convertToISODate (rtAt env (AtStore k)) (date later) = Inr K
                 \<and> dayRecs (snd (processSchedule env k s (t, st))) K = Some (stampDay s K later)"
    by blast
qed

lemma emptyStore_facts: "failing emptyStore = {}" "weekRecs emptyStore w = None"
  by (simp_all add: emptyStore_def)

lemma repost_facts:
  "failing afterBothWeeks = {}"
  "weekRecs afterBothWeeks (week weekRepost) = None"
  "datesHaveMonth weekRepost"
  "days weekRepost = [parsedDay ''06.01'' ''Poniedzialek'' [athleticSession]]"
  "convertToISODate (rtAt envRepost (AtStore 0)) (date (parsedDay ''06.01'' ''Poniedzialek'' [athleticSession]))
     = Inr ''2025-01-06''"
  "map_option trainingSessions (dayRecs afterBothWeeks ''2025-01-06'') = Some [speedSession]"
  "weekRecs afterBothWeeks (week weekJan06_second) \<noteq> None"
  by code_simp+

text \<open>
  After the run that stored both weeks, the re-post of the first week replaces Monday's
  record, and the first week under its recorded identifier changes nothing.
\<close>

theorem later_submission_replaces_day_witness:
  "map_option trainingSessions (dayRecs afterBothWeeks ''2025-01-06'') = Some [speedSession]
   \<and> dayRecs (snd (processSchedule envRepost 0 weekRepost (emptyTally, afterBothWeeks))) ''2025-01-06''
       = Some (stampDay weekRepost ''2025-01-06'' (parsedDay ''06.01'' ''Poniedzialek'' [athleticSession]))
   \<and> snd (processSchedule envRepost 0 weekJan06_second (emptyTally, afterBothWeeks)) = afterBothWeeks"
proof -
  let ?day = "parsedDay ''06.01'' ''Poniedzialek'' [athleticSession]"
  have "?day \<in> set (days weekRepost)" by (simp add: repost_facts(4))
  with later_submission_replaces_day [OF repost_facts(1), of weekRepost envRepost 0 emptyTally
      ?day "''2025-01-06''"] repost_facts(2,3,5)
  have "\<exists>later \<in> set (days weekRepost).
      dayRecs (snd (processSchedule envRepost 0 weekRepost (emptyTally, afterBothWeeks))) ''2025-01-06''
        = Some (stampDay weekRepost ''2025-01-06'' later)"
    by blast
  then have a: "dayRecs (snd (processSchedule envRepost 0 weekRepost (emptyTally, afterBothWeeks))) ''2025-01-06''
        = Some (stampDay weekRepost ''2025-01-06'' ?day)"
    by (simp add: repost_facts(4))
  have b: "snd (processSchedule envRepost 0 weekJan06_second (emptyTally, afterBothWeeks)) = afterBothWeeks"
    using later_submission_replaces_day [OF repost_facts(1), of weekJan06_second envRepost 0 emptyTally]
      repost_facts(7) by blast
  from a b repost_facts(6) show ?thesis by blast
qed

text \<open>
  Claim C6, as stated, fails: the record stored for 2025-01-06 by the first run is replaced
  by the run that reads the re-post.
\<close>

theorem first_write_wins_counterexample:
  "map_option trainingSessions (dayRecs afterBothWeeks ''2025-01-06'') = Some [speedSession]
   \<and> map_option trainingSessions (dayRecs afterRepost ''2025-01-06'') = Some [athleticSession]
   \<and> dayRecs afterRepost ''2025-01-06'' \<noteq> dayRecs afterBothWeeks ''2025-01-06''"
  by code_simp

subsection \<open>One document fails to parse\<close>






subsection \<open>Running twice on the same documents\<close>

text \<open>
  After a first run that reports success, a second run over the same documents with the
  same parser objects stores nothing: every parsed submission's week identifier is found,
  and the day records, the date index, the week records and the update marker stay as the
  first run left them.
\<close>

lemma second_run_after_success:
  assumes h: "failing st0 = {}" and a1: "authorized env1" and a2: "authorized env2"
    and ns: "\<not> shouldSkip (shouldSkipScraping (rtAt env1 AtSkipCheck) st0)"
    and s1: "scrapeAllBlogPosts env1 = Inr posts" and s2: "scrapeAllBlogPosts env2 = Inr posts"
    and g: "generateObject env2 = generateObject env1"
    and r1: "POST env1 st0 = (resp1, st1)" and r2: "POST env2 st1 = (resp2, st2)"
    and ok: "reportOf resp1 = Some rep1" "success rep1"
  shows "(\<exists>r. reportOf resp2 = Some r \<and> schedulesProcessed r = 0)
       \<and> list_all (\<lambda>s. weekScheduleExists (week s) st1) (parseAllSchedules env2 posts)
       \<and> dayRecs st2 = dayRecs st1 \<and> daysList st2 = daysList st1
       \<and> weekRecs st2 = weekRecs st1 \<and> latest_update st2 = latest_update st1"
proof -
  let ?ws1 = "parseAllSchedules env1 posts" and ?ws2 = "parseAllSchedules env2 posts"
  let ?Q = "\<lambda>w (ds :: DaySchedule list). weekRecs st1 w \<noteq> None"
  have same: "map (\<lambda>s. (week s, days s)) ?ws2 = map (\<lambda>s. (week s, days s)) ?ws1"
    unfolding parseAllSchedules_def by (rule parseLoop_same_objects [OF g])
  have nonempty: "posts \<noteq> []"
  proof
    assume "posts = []"
    with POST_no_posts [OF a1 ns] s1 r1 ok show False by auto
  qed
  obtain t sl where loop: "storeLoop env1 0 ?ws1 (emptyTally, st0) = (t, sl)"
    by (cases "storeLoop env1 0 ?ws1 (emptyTally, st0)")
  from POST_completed [OF a1 ns s1 nonempty loop] r1 ok
  have fr: "weekRecs st1 = weekRecs sl" "failing st1 = failing sl" and noerr: "loopErrors t = []"
    by (auto simp: logScrapingOperation_frame)
  have healthy1: "failing st1 = {}"
    using storeLoop_invariants [OF h, of env1 0 ?ws1 emptyTally] loop fr by simp
  have "\<forall>s \<in> set ?ws1. weekRecs sl (week s) \<noteq> None"
    using storeLoop_errors [OF h, of emptyTally env1 0 ?ws1] loop noerr
    by (simp add: emptyTally_def)
  then have "\<forall>s \<in> set ?ws1. ?Q (week s) (days s)" using fr by simp
  from same_weeks_and_days [where P = ?Q, OF same this]
  have rec: "\<forall>s \<in> set ?ws2. weekRecs st1 (week s) \<noteq> None" .
  then have found: "list_all (\<lambda>s. weekScheduleExists (week s) st1) ?ws2"
    using healthy1 by (simp add: list_all_iff healthy_commands)
  have "(\<exists>r. reportOf resp2 = Some r \<and> schedulesProcessed r = 0)
      \<and> (\<exists>e. st2 = logScrapingOperation (rtAt env2 AtLog) e st1)"
  proof (cases "shouldSkip (shouldSkipScraping (rtAt env2 AtSkipCheck) st1)")
    case True
    from POST_skipped [OF a2 True] r2 show ?thesis by auto
  next
    case noskip: False
    obtain t2 sl2 where loop2: "storeLoop env2 0 ?ws2 (emptyTally, st1) = (t2, sl2)"
      by (cases "storeLoop env2 0 ?ws2 (emptyTally, st1)")
    have "sl2 = st1"
      using storeLoop_all_recorded [OF healthy1 rec, of env2 0 emptyTally] loop2 by simp
    moreover have "storedSchedules t2 = []"
      using storeLoop_nothing_stored [OF healthy1, of ?ws2 env2 0 emptyTally] rec loop2
      by (simp add: emptyTally_def)
    ultimately show ?thesis
      using POST_completed [OF a2 noskip s2 nonempty loop2] r2 by auto
  qed
  with found show ?thesis by (auto simp: logScrapingOperation_frame)
qed

lemma bothWeeks_facts:
  "authorized envBothWeeks" "authorized envBothWeeksLater"
  "\<not> shouldSkip (shouldSkipScraping (rtAt envBothWeeks AtSkipCheck) emptyStore)"
  "scrapeAllBlogPosts envBothWeeks = Inr [postJan13, postJan06]"
  "scrapeAllBlogPosts envBothWeeksLater = Inr [postJan13, postJan06]"
  "map_option success (reportOf (fst (POST envBothWeeks emptyStore))) = Some True"
  "\<not> shouldSkip (shouldSkipScraping (rtAt envBothWeeksLater AtSkipCheck) afterBothWeeks)"
  by code_simp+

lemma bothWeeks_same_parser: "generateObject envBothWeeksLater = generateObject envBothWeeks"
  by (simp add: envBothWeeksLater_def envBothWeeks_def exampleEnv_def)

text \<open>The run over both weeks, and the same two posts read again an hour later.\<close>

lemma second_run_after_success_example:
  "\<not> shouldSkip (shouldSkipScraping (rtAt envBothWeeksLater AtSkipCheck) afterBothWeeks)
   \<and> (\<exists>r. reportOf (fst (POST envBothWeeksLater afterBothWeeks)) = Some r \<and> schedulesProcessed r = 0)
   \<and> dayRecs afterBothWeeksAgain = dayRecs afterBothWeeks
   \<and> daysList afterBothWeeksAgain = daysList afterBothWeeks"
proof -
  have r1: "POST envBothWeeks emptyStore = (fst (POST envBothWeeks emptyStore), afterBothWeeks)"
    by (simp add: afterBothWeeks_def)
  have r2: "POST envBothWeeksLater afterBothWeeks
      = (fst (POST envBothWeeksLater afterBothWeeks), afterBothWeeksAgain)"
    by (simp add: afterBothWeeksAgain_def)
  obtain rep1 where ok: "reportOf (fst (POST envBothWeeks emptyStore)) = Some rep1" "success rep1"
    using bothWeeks_facts(6) by auto
  from second_run_after_success [OF emptyStore_facts(1) bothWeeks_facts(1,2,3,4,5)
      bothWeeks_same_parser r1 r2 ok] bothWeeks_facts(7)
  show ?thesis by blast
qed

text \<open>
  Claim C4 does not hold of the code. A submission whose second day has the date
  \<^verbatim>\<open>2110\<close>: the first run stores the first day, fails on the second and reports the
  failure, and the week identifier is not recorded. The second run over the same document
  does not find the week identifier and stores the first day again, with its own time stamp.
\<close>

theorem second_run_rewrites_partial_week:
  "fst (POST (envMalformed jan6_8am) emptyStore) =
     Completed200 \<lparr>success = False, schedulesProcessed = 0,
                    errors = [''Failed to store schedule for week 20/10/2025-26/10/2025''],
                    urls = [urlJan06], timestamp = ''2025-01-06T08:00:09.000Z''\<rparr>
       [] [] 0
   \<and> scrapeAllBlogPosts (envMalformed (jan6_8am + 3600000)) = scrapeAllBlogPosts (envMalformed jan6_8am)
   \<and> map (\<lambda>s. (week s, map date (days s)))
        (parseAllSchedules (envMalformed jan6_8am) [postJan06])
      = [(''20/10/2025-26/10/2025'', [''20.10'', ''2110''])]
   \<and> map (\<lambda>s. (week s, map date (days s)))
        (parseAllSchedules (envMalformed (jan6_8am + 3600000)) [postJan06])
      = [(''20/10/2025-26/10/2025'', [''20.10'', ''2110''])]
   \<and> weekScheduleExists ''20/10/2025-26/10/2025'' afterMalformedFirst = False
   \<and> map_option dayScrapedAt (dayRecs afterMalformedFirst ''2025-10-20'')
        = Some (Some ''2025-01-06T08:00:01.000Z'')
   \<and> map_option dayScrapedAt (dayRecs afterMalformedSecond ''2025-10-20'')
        = Some (Some ''2025-01-06T09:00:01.000Z'')"
  by code_simp

subsection \<open>The order of the full listing\<close>

text \<open>
  Claim C9 does not hold of the code. The date index is scored by the time of storing, so
  \<^verbatim>\<open>getAllDaySchedules\<close> lists the days of the submission stored last first. In a run
  that stores the week of 13 January before the week of 6 January, the days of 6 and 7
  January precede those of 13 and 14 January.
\<close>

theorem all_days_listed_by_ingestion_time:
  "fst (POST envBothWeeks emptyStore) =
     Completed200 \<lparr>success = True, schedulesProcessed = 2, errors = [],
                    urls = [urlJan13, urlJan06], timestamp = ''2025-01-06T08:00:09.000Z''\<rparr>
       [''13/01/2025-19/01/2025'', ''06/01/2025-12/01/2025''] [] 4
   \<and> map isoDate (getAllDaySchedules afterBothWeeks)
     = [Some ''2025-01-07'', Some ''2025-01-06'', Some ''2025-01-14'', Some ''2025-01-13'']"
  by code_simp

end
